theory Spec2Isabelle
  imports Complex_Main "HOL-Library.Char_ord" "HOL-Library.List_Lexorder"
begin

section \<open>Arrays\<close>

text \<open>
  The adapter in \<^verbatim>\<open>deepchem/models/deep.py\<close> moves numpy arrays in and out of
  dictionaries. An array is modelled the way numpy stores it: a shape and the entries
  in row-major order. Entries are real numbers; rounding of machine floats is not
  modelled. Every Python exception the adapter can meet is a value of \<open>error\<close>.
\<close>

datatype error = IndexError | ValueError | KeyError | AttributeError | IOError | EngineError

record ndarray =
  shape :: "nat list"
  data :: "real list"

definition wf_array :: "ndarray \<Rightarrow> bool" where
  "wf_array a \<longleftrightarrow> length (data a) = prod_list (shape a)"

text \<open>\<^verbatim>\<open>np.zeros(s)\<close>\<close>

definition np_zeros :: "nat list \<Rightarrow> ndarray" where
  "np_zeros s = \<lparr>shape = s, data = replicate (prod_list s) 0\<rparr>"

text \<open>\<^verbatim>\<open>np.shape(a)[0]\<close>: a zero-dimensional array has the empty tuple as shape.\<close>

definition np_shape0 :: "ndarray \<Rightarrow> error + nat" where
  "np_shape0 a = (case shape a of [] \<Rightarrow> Inl IndexError | n # _ \<Rightarrow> Inr n)"

text \<open>\<^verbatim>\<open>a[i]\<close> for \<open>i\<close> below the first dimension: the \<open>i\<close>-th block along axis 0.\<close>

definition sub :: "ndarray \<Rightarrow> nat \<Rightarrow> ndarray" where
  "sub a i = (let b = prod_list (tl (shape a))
              in \<lparr>shape = tl (shape a), data = take b (drop (i * b) (data a))\<rparr>)"

text \<open>
  The truth value Python takes of \<^verbatim>\<open>val == c\<close> in an \<^verbatim>\<open>if\<close>: the comparison is
  elementwise, an array of one element has that element's truth value, an empty one is
  false and a longer one raises \<^verbatim>\<open>ValueError\<close>.
\<close>

definition eq_truth :: "ndarray \<Rightarrow> real \<Rightarrow> error + bool" where
  "eq_truth val c = (case data val of [] \<Rightarrow> Inr False
                     | [v] \<Rightarrow> Inr (v = c)
                     | _ \<Rightarrow> Inl ValueError)"

text \<open>\<^verbatim>\<open>y_hot[index] = np.array(vs)\<close> on a matrix whose rows are as long as \<open>vs\<close>.\<close>

definition set_row :: "ndarray \<Rightarrow> nat \<Rightarrow> real list \<Rightarrow> ndarray" where
  "set_row a i vs = a\<lparr>data := take (i * length vs) (data a) @ vs
                              @ drop (i * length vs + length vs) (data a)\<rparr>"

section \<open>One-hot encoding\<close>

text \<open>
  \<^verbatim>\<open>to_one_hot\<close>: the loop \<^verbatim>\<open>for index, val in enumerate(y)\<close> runs over the indices
  of axis 0 and threads the matrix \<^verbatim>\<open>y_hot\<close>.
\<close>

fun one_hot_loop :: "ndarray \<Rightarrow> nat list \<Rightarrow> ndarray \<Rightarrow> error + ndarray" where
  "one_hot_loop y [] y_hot = Inr y_hot"
| "one_hot_loop y (index # rest) y_hot =
     (case eq_truth (sub y index) 0 of
        Inl e \<Rightarrow> Inl e
      | Inr is0 \<Rightarrow>
          if is0 then one_hot_loop y rest (set_row y_hot index [1, 0])
          else (case eq_truth (sub y index) 1 of
                  Inl e \<Rightarrow> Inl e
                | Inr is1 \<Rightarrow>
                    if is1 then one_hot_loop y rest (set_row y_hot index [0, 1])
                    else one_hot_loop y rest y_hot))"

definition to_one_hot :: "ndarray \<Rightarrow> error + ndarray" where
  "to_one_hot y = (case np_shape0 y of
                     Inl e \<Rightarrow> Inl e
                   | Inr n_samples \<Rightarrow> one_hot_loop y [0..<n_samples] (np_zeros [n_samples, 2]))"

text \<open>A label vector of length \<open>n\<close> is the one-dimensional array with these entries.\<close>

definition vector :: "real list \<Rightarrow> ndarray" where
  "vector ys = \<lparr>shape = [length ys], data = ys\<rparr>"

definition hot_row :: "real \<Rightarrow> real list" where
  "hot_row v = (if v = 0 then [1, 0] else if v = 1 then [0, 1] else [0, 0])"

section \<open>Array operations of the batch steps\<close>

text \<open>
  \<^verbatim>\<open>y[:, j]\<close>: column \<open>j\<close> along axis 1. An array of fewer than two dimensions
  has too many indices, and \<open>j\<close> beyond axis 1 is out of bounds.
\<close>

definition col :: "ndarray \<Rightarrow> nat \<Rightarrow> error + ndarray" where
  "col a j = (case shape a of
                n # t # rest \<Rightarrow>
                  if j < t
                  then Inr \<lparr>shape = n # rest,
                            data = concat (map (\<lambda>r. take (prod_list rest)
                                                     (drop ((r * t + j) * prod_list rest) (data a)))
                                             [0..<n])\<rparr>
                  else Inl IndexError
              | _ \<Rightarrow> Inl IndexError)"

text \<open>\<^verbatim>\<open>np.ones(s)\<close>, a scalar times an array, and the sum of two arrays of one shape.\<close>

definition np_ones :: "nat list \<Rightarrow> ndarray" where
  "np_ones s = \<lparr>shape = s, data = replicate (prod_list s) 1\<rparr>"

definition scalar_mult :: "real \<Rightarrow> ndarray \<Rightarrow> ndarray" where
  "scalar_mult c a = \<lparr>shape = shape a, data = map (\<lambda>x. c * x) (data a)\<rparr>"

definition add_same_shape :: "ndarray \<Rightarrow> ndarray \<Rightarrow> ndarray" where
  "add_same_shape a b = \<lparr>shape = shape a, data = map2 (\<lambda>x y. x + y) (data a) (data b)\<rparr>"

text \<open>
  \<^verbatim>\<open>np.argmax\<close> of a sequence: the index of the first largest entry.
\<close>

fun arg_max_acc :: "real list \<Rightarrow> nat \<Rightarrow> nat \<Rightarrow> real \<Rightarrow> nat" where
  "arg_max_acc [] i best bv = best"
| "arg_max_acc (x # xs) i best bv =
     (if bv < x then arg_max_acc xs (Suc i) i x else arg_max_acc xs (Suc i) best bv)"

definition argmax_list :: "real list \<Rightarrow> nat" where
  "argmax_list xs = (case xs of [] \<Rightarrow> 0 | x # rest \<Rightarrow> arg_max_acc rest 1 0 x)"

text \<open>
  \<^verbatim>\<open>np.argmax(a, axis=1)\<close>: axis 1 is reduced; an array without axis 1 and an empty
  axis 1 raise \<^verbatim>\<open>ValueError\<close>.
\<close>

definition np_argmax1 :: "ndarray \<Rightarrow> error + ndarray" where
  "np_argmax1 a = (case shape a of
       n # k # rest \<Rightarrow>
         if k = 0 then Inl ValueError
         else Inr \<lparr>shape = n # rest,
                   data = concat (map (\<lambda>r. map (\<lambda>j. real (argmax_list
                                     (map (\<lambda>c. data a ! ((r * k + c) * prod_list rest + j)) [0..<k])))
                                   [0..<prod_list rest])
                            [0..<n])\<rparr>
     | _ \<Rightarrow> Inl ValueError)"

text \<open>\<^verbatim>\<open>np.squeeze(a)\<close> drops every dimension of size one; the entries stay.\<close>

definition np_squeeze :: "ndarray \<Rightarrow> ndarray" where
  "np_squeeze a = \<lparr>shape = filter (\<lambda>d. d \<noteq> 1) (shape a), data = data a\<rparr>"

text \<open>
  \<^verbatim>\<open>a[:, j] = v\<close> on a matrix \<open>a\<close> of shape \<open>[n, t]\<close> with \<open>j < t\<close>. The value is
  broadcast to the column's shape \<open>[n]\<close>: leading dimensions of size one do not
  count, a single entry fills the column, \<open>n\<close> entries are copied, and every other
  shape raises \<^verbatim>\<open>ValueError\<close>.
\<close>

definition set_col :: "ndarray \<Rightarrow> nat \<Rightarrow> ndarray \<Rightarrow> error + ndarray" where
  "set_col a j v = (case shape a of
       [n, t] \<Rightarrow>
         (let s = dropWhile (\<lambda>d. d = 1) (shape v) in
          if s = [] then
            Inr \<lparr>shape = [n, t],
                 data = concat (map (\<lambda>r. (take t (drop (r * t) (data a)))[j := hd (data v)]) [0..<n])\<rparr>
          else if s = [n] then
            Inr \<lparr>shape = [n, t],
                 data = concat (map (\<lambda>r. (take t (drop (r * t) (data a)))[j := data v ! r]) [0..<n])\<rparr>
          else Inl ValueError)
     | _ \<Rightarrow> Inl IndexError)"

section \<open>Names and dictionaries\<close>

text \<open>\<^verbatim>\<open>"%d" % ind\<close> for a loop index.\<close>

definition digit_char :: "nat \<Rightarrow> char" where
  "digit_char d = char_of (48 + d)"

fun string_of_nat :: "nat \<Rightarrow> string" where
  "string_of_nat n = (if n < 10 then [digit_char n]
                      else string_of_nat (n div 10) @ [digit_char (n mod 10)])"

declare string_of_nat.simps [simp del]

definition task_name :: "nat \<Rightarrow> string" where
  "task_name ind = ''task'' @ string_of_nat ind"

definition head_name :: "nat \<Rightarrow> string" where
  "head_name ind = ''dense_head'' @ string_of_nat ind"

text \<open>
  The task specification is a dictionary from task identifier to task type, both
  strings. It is written as an association list; \<^verbatim>\<open>task_types[task]\<close> is the
  lookup, \<^verbatim>\<open>sorted(task_types.keys())\<close> the keys without repetition in ascending
  order (strings compare lexicographically by character code).
\<close>

type_synonym task_spec = "(string \<times> string) list"

definition lookup :: "('k \<times> 'v) list \<Rightarrow> 'k \<Rightarrow> error + 'v" where
  "lookup d k = (case map_of d k of None \<Rightarrow> Inl KeyError | Some v \<Rightarrow> Inr v)"

definition sorted_tasks :: "task_spec \<Rightarrow> string list" where
  "sorted_tasks tt = sort (remdups (map fst tt))"

text \<open>A dictionary from names to arrays, and \<^verbatim>\<open>d[name]\<close> on it.\<close>

type_synonym array_dict = "string \<rightharpoonup> ndarray"

definition lookup_map :: "('k \<rightharpoonup> 'v) \<Rightarrow> 'k \<Rightarrow> error + 'v" where
  "lookup_map d k = (case d k of None \<Rightarrow> Inl KeyError | Some v \<Rightarrow> Inr v)"

section \<open>Instances, the engine and the base class\<close>

text \<open>
  \<^verbatim>\<open>model_params\<close> is a dictionary that the constructor reads at nine fixed keys; the
  record has one field for each. \<^verbatim>\<open>data_shape\<close> is a tuple.
\<close>

record model_params =
  data_shape :: "nat list"
  nb_hidden :: nat
  init :: string
  activation :: string
  dropout :: real
  learning_rate :: real
  decay :: real
  momentum :: real
  nesterov :: bool

text \<open>
  The layers and the optimizer that the constructor hands to Keras, and the calls it makes
  on the \<^verbatim>\<open>Graph\<close> object, in the order it makes them. \<open>Dense n init act\<close> is
  \<^verbatim>\<open>Dense(n, init=init, activation=act)\<close>; Keras's default activation is
  \<^verbatim>\<open>linear\<close>.
\<close>

datatype layer = Dense nat string string | Dropout real

record sgd =
  lr :: real
  sgd_decay :: real
  sgd_momentum :: real
  sgd_nesterov :: bool

datatype graph_call =
    AddInput string "nat list"
  | AddNode layer string string
  | AddOutput string string
  | Compile sgd "string \<rightharpoonup> string"

text \<open>
  An instance carries its class name, the attributes that \<^verbatim>\<open>Model.__init__\<close> stores and
  the raw model, of a type \<open>'m\<close> that belongs to the engine.
\<close>

record 'm model =
  model_class :: string
  task_types :: task_spec
  params :: model_params
  raw_model :: "'m option"

text \<open>
  Keras is outside the repository. What the adapter calls on it is a parameter: building
  a compiled graph from the calls of the constructor, the architecture description and the
  weight blob of a model, their inverses, one training step (the loss and the updated
  model) and inference.
\<close>

record ('m, 'l) engine =
  build_graph :: "graph_call list \<Rightarrow> error + 'm"
  to_json :: "'m \<Rightarrow> string"
  weights_blob :: "'m \<Rightarrow> string"
  model_from_json :: "string \<Rightarrow> error + 'm"
  load_weights :: "'m \<Rightarrow> string \<Rightarrow> error + 'm"
  train_on_batch :: "'m \<Rightarrow> array_dict \<Rightarrow> array_dict \<Rightarrow> error + 'l \<times> 'm"
  engine_predict :: "'m \<Rightarrow> array_dict \<Rightarrow> error + array_dict"

text \<open>
  Files: a path has a content or none, and a path can refuse to be written.
\<close>

record filesystem =
  files :: "string \<rightharpoonup> string"
  writable :: "string \<Rightarrow> bool"

definition write_file :: "filesystem \<Rightarrow> string \<Rightarrow> string \<Rightarrow> error + filesystem" where
  "write_file fs path content =
     (if writable fs path then Inr (fs\<lparr>files := (files fs)(path \<mapsto> content)\<rparr>) else Inl IOError)"

definition read_file :: "filesystem \<Rightarrow> string \<Rightarrow> error + string" where
  "read_file fs path = (case files fs path of None \<Rightarrow> Inl IOError | Some c \<Rightarrow> Inr c)"

text \<open>
  The base class \<^verbatim>\<open>deepchem.models.Model\<close> is not among the sources. Its static method
  \<^verbatim>\<open>get_model_filename\<close> and its \<^verbatim>\<open>save\<close> are parameters.
\<close>

record 'm base =
  get_model_filename :: "string \<Rightarrow> string"
  base_save :: "'m model \<Rightarrow> string \<Rightarrow> filesystem \<Rightarrow> error + filesystem"

text \<open>
  Modelled from the spec: \<^verbatim>\<open>Model.__init__\<close>, which is missing, stores the task
  specification and the model parameters in the instance; there is no raw model yet.
\<close>

definition Model_init :: "string \<Rightarrow> task_spec \<Rightarrow> model_params \<Rightarrow> 'm model" where
  "Model_init cls tt mp = \<lparr>model_class = cls, task_types = tt, params = mp, raw_model = None\<rparr>"

text \<open>
  Modelled from the spec: \<^verbatim>\<open>Model.get_raw_model\<close>, which is missing, returns the raw
  model that the instance owns.
\<close>

definition get_raw_model :: "'m model \<Rightarrow> 'm option" where
  "get_raw_model self = raw_model self"

section \<open>Persistence\<close>

text \<open>
  \<^verbatim>\<open>os.path.splitext\<close> of the standard library, on POSIX paths: the extension starts
  at the last dot of the last path component, unless only dots precede it there.
  \<open>rfind\<close> is \<^verbatim>\<open>str.rfind\<close> for one character, \<open>-1\<close> when it does not occur.
\<close>

fun rfind_acc :: "string \<Rightarrow> char \<Rightarrow> nat \<Rightarrow> int \<Rightarrow> int" where
  "rfind_acc [] c i found = found"
| "rfind_acc (x # xs) c i found = rfind_acc xs c (Suc i) (if x = c then int i else found)"

definition rfind :: "string \<Rightarrow> char \<Rightarrow> int" where
  "rfind p c = rfind_acc p c 0 (- 1)"

definition splitext :: "string \<Rightarrow> string \<times> string" where
  "splitext p =
     (let sepIndex = rfind p (CHR ''/'');
          dotIndex = rfind p (CHR ''.'') in
      if sepIndex < dotIndex \<and>
         list_ex (\<lambda>c. c \<noteq> CHR ''.'')
           (take (nat (dotIndex - (sepIndex + 1))) (drop (nat (sepIndex + 1)) p))
      then (take (nat dotIndex) p, drop (nat dotIndex) p)
      else (p, []))"

text \<open>\<^verbatim>\<open>"%s.%s" % (filename, ext)\<close>\<close>

definition with_ext :: "string \<Rightarrow> string \<Rightarrow> string" where
  "with_ext filename ext = filename @ ''.'' @ ext"

text \<open>
  \<^verbatim>\<open>KerasModel.save\<close>. The result is the file system after the call; an error stands
  for the exception and does not keep what was written before it.
\<close>

definition KerasModel_save ::
  "('m, 'l) engine \<Rightarrow> 'm base \<Rightarrow> 'm model \<Rightarrow> string \<Rightarrow> filesystem \<Rightarrow> error + filesystem" where
  "KerasModel_save eng base self out_dir fs =
     (case base_save base self out_dir fs of
        Inl e \<Rightarrow> Inl e
      | Inr fs1 \<Rightarrow>
          (let model = get_raw_model self;
               filename = fst (splitext (get_model_filename base out_dir));
               json_filename = with_ext filename ''json'';
               h5_filename = with_ext filename ''h5'' in
           case model of
             None \<Rightarrow> Inl AttributeError
           | Some m \<Rightarrow>
               (case write_file fs1 json_filename (to_json eng m) of
                  Inl e \<Rightarrow> Inl e
                | Inr fs2 \<Rightarrow> write_file fs2 h5_filename (weights_blob eng m))))"

text \<open>\<^verbatim>\<open>KerasModel.load\<close>: the instance with the loaded model as its raw model.\<close>

definition KerasModel_load ::
  "('m, 'l) engine \<Rightarrow> 'm base \<Rightarrow> 'm model \<Rightarrow> string \<Rightarrow> filesystem \<Rightarrow> error + 'm model" where
  "KerasModel_load eng base self model_dir fs =
     (let filename = fst (splitext (get_model_filename base model_dir));
          json_filename = with_ext filename ''json'';
          h5_filename = with_ext filename ''h5'' in
      case read_file fs json_filename of
        Inl e \<Rightarrow> Inl e
      | Inr json_string \<Rightarrow>
          (case model_from_json eng json_string of
             Inl e \<Rightarrow> Inl e
           | Inr m \<Rightarrow>
               (case read_file fs h5_filename of
                  Inl e \<Rightarrow> Inl e
                | Inr blob \<Rightarrow>
                    (case load_weights eng m blob of
                       Inl e \<Rightarrow> Inl e
                     | Inr m' \<Rightarrow> Inr (self\<lparr>raw_model := Some m'\<rparr>)))))"

section \<open>Construction\<close>

text \<open>
  \<^verbatim>\<open>MultiTaskDNN.__init__\<close>. The first loop over \<^verbatim>\<open>enumerate(sorted_tasks)\<close> adds the
  heads and outputs to the graph; \<open>calls\<close> is what the graph has been told so far.
\<close>

fun head_loop ::
  "task_spec \<Rightarrow> model_params \<Rightarrow> string \<Rightarrow> (nat \<times> string) list \<Rightarrow> graph_call list
     \<Rightarrow> error + graph_call list" where
  "head_loop tt mp top_layer [] calls = Inr calls"
| "head_loop tt mp top_layer ((ind, task) # rest) calls =
     (case lookup tt task of
        Inl e \<Rightarrow> Inl e
      | Inr task_type \<Rightarrow>
          head_loop tt mp top_layer rest
            (calls
             @ (if task_type = ''classification''
                then [AddNode (Dense 2 (init mp) ''softmax'') (head_name ind) top_layer]
                else if task_type = ''regression''
                then [AddNode (Dense 1 (init mp) ''linear'') (head_name ind) top_layer]
                else [])
             @ [AddOutput (task_name ind) (head_name ind)]))"

text \<open>The second loop fills \<^verbatim>\<open>loss_dict\<close>.\<close>

fun loss_loop ::
  "task_spec \<Rightarrow> (nat \<times> string) list \<Rightarrow> (string \<rightharpoonup> string) \<Rightarrow> error + (string \<rightharpoonup> string)" where
  "loss_loop tt [] loss_dict = Inr loss_dict"
| "loss_loop tt ((ind, task) # rest) loss_dict =
     (case lookup tt task of
        Inl e \<Rightarrow> Inl e
      | Inr task_type \<Rightarrow>
          if task_type = ''classification''
          then loss_loop tt rest (loss_dict(task_name ind \<mapsto> ''binary_crossentropy''))
          else if task_type = ''regression''
          then loss_loop tt rest (loss_dict(task_name ind \<mapsto> ''mean_squared_error''))
          else loss_loop tt rest loss_dict)"

text \<open>
  The calls on the graph from \<^verbatim>\<open>Graph()\<close> to \<^verbatim>\<open>model.compile\<close>. Unpacking
  \<^verbatim>\<open>(n_inputs,) = model_params["data_shape"]\<close> raises \<^verbatim>\<open>ValueError\<close> unless the tuple
  has one component.
\<close>

definition graph_calls :: "task_spec \<Rightarrow> model_params \<Rightarrow> error + graph_call list" where
  "graph_calls tt mp =
     (let sorted = sorted_tasks tt in
      case data_shape mp of
        [n_inputs] \<Rightarrow>
          (case head_loop tt mp ''dropout'' (List.enumerate 0 sorted)
                  [AddInput ''input'' [n_inputs],
                   AddNode (Dense (nb_hidden mp) (init mp) (activation mp)) ''dense'' ''input'',
                   AddNode (Dropout (dropout mp)) ''dropout'' ''dense''] of
             Inl e \<Rightarrow> Inl e
           | Inr calls \<Rightarrow>
               (case loss_loop tt (List.enumerate 0 sorted) Map.empty of
                  Inl e \<Rightarrow> Inl e
                | Inr loss_dict \<Rightarrow>
                    Inr (calls @ [Compile \<lparr>lr = learning_rate mp, sgd_decay = decay mp,
                                           sgd_momentum = momentum mp,
                                           sgd_nesterov = nesterov mp\<rparr> loss_dict])))
      | _ \<Rightarrow> Inl ValueError)"

definition MultiTaskDNN_init ::
  "('m, 'l) engine \<Rightarrow> string \<Rightarrow> task_spec \<Rightarrow> model_params \<Rightarrow> bool \<Rightarrow> error + 'm model" where
  "MultiTaskDNN_init eng cls tt mp initialize_raw_model =
     (let self = Model_init cls tt mp in
      if initialize_raw_model then
        (case graph_calls tt mp of
           Inl e \<Rightarrow> Inl e
         | Inr calls \<Rightarrow>
             (case build_graph eng calls of
                Inl e \<Rightarrow> Inl e
              | Inr m \<Rightarrow> Inr (self\<lparr>raw_model := Some m\<rparr>)))
      else Inr self)"

text \<open>
  \<^verbatim>\<open>SingleTaskDNN.__init__\<close> passes its arguments to the constructor of its superclass.
  An object of either class is made by the constructor of the class, on an instance
  whose class name is the name of the class.
\<close>

definition SingleTaskDNN_init ::
  "('m, 'l) engine \<Rightarrow> string \<Rightarrow> task_spec \<Rightarrow> model_params \<Rightarrow> bool \<Rightarrow> error + 'm model" where
  "SingleTaskDNN_init eng cls tt mp initialize_raw_model =
     MultiTaskDNN_init eng cls tt mp initialize_raw_model"

definition new_MultiTaskDNN ::
  "('m, 'l) engine \<Rightarrow> task_spec \<Rightarrow> model_params \<Rightarrow> bool \<Rightarrow> error + 'm model" where
  "new_MultiTaskDNN eng tt mp initialize_raw_model =
     MultiTaskDNN_init eng ''MultiTaskDNN'' tt mp initialize_raw_model"

definition new_SingleTaskDNN ::
  "('m, 'l) engine \<Rightarrow> task_spec \<Rightarrow> model_params \<Rightarrow> bool \<Rightarrow> error + 'm model" where
  "new_SingleTaskDNN eng tt mp initialize_raw_model =
     SingleTaskDNN_init eng ''SingleTaskDNN'' tt mp initialize_raw_model"

section \<open>Data shaping\<close>

text \<open>\<^verbatim>\<open>get_data_dict\<close>: the loop threads the dictionary \<^verbatim>\<open>data\<close>.\<close>

fun data_loop ::
  "task_spec \<Rightarrow> ndarray option \<Rightarrow> (nat \<times> string) list \<Rightarrow> array_dict \<Rightarrow> error + array_dict" where
  "data_loop tt y [] d = Inr d"
| "data_loop tt y ((ind, task) # rest) d =
     (case lookup tt task of
        Inl e \<Rightarrow> Inl e
      | Inr task_type \<Rightarrow>
          (case y of
             None \<Rightarrow> data_loop tt y rest d
           | Some ya \<Rightarrow>
               if task_type = ''classification'' then
                 (case col ya ind of
                    Inl e \<Rightarrow> Inl e
                  | Inr c \<Rightarrow>
                      (case to_one_hot c of
                         Inl e \<Rightarrow> Inl e
                       | Inr h \<Rightarrow> data_loop tt y rest (d(task_name ind \<mapsto> h))))
               else if task_type = ''regression'' then
                 (case col ya ind of
                    Inl e \<Rightarrow> Inl e
                  | Inr c \<Rightarrow> data_loop tt y rest (d(task_name ind \<mapsto> c)))
               else data_loop tt y rest d))"

definition get_data_dict :: "'m model \<Rightarrow> ndarray \<Rightarrow> ndarray option \<Rightarrow> error + array_dict" where
  "get_data_dict self X y =
     data_loop (task_types self) y (List.enumerate 0 (sorted_tasks (task_types self)))
       (Map.empty(''input'' \<mapsto> X))"

text \<open>\<^verbatim>\<open>get_sample_weight\<close>, over \<^verbatim>\<open>range(len(sorted(self.task_types.keys())))\<close>.\<close>

fun weight_loop :: "ndarray \<Rightarrow> nat list \<Rightarrow> array_dict \<Rightarrow> error + array_dict" where
  "weight_loop w [] sample_weight = Inr sample_weight"
| "weight_loop w (ind # rest) sample_weight =
     (case col w ind of
        Inl e \<Rightarrow> Inl e
      | Inr c \<Rightarrow> weight_loop w rest (sample_weight(task_name ind \<mapsto> c)))"

definition get_sample_weight :: "'m model \<Rightarrow> ndarray \<Rightarrow> error + array_dict" where
  "get_sample_weight self w =
     weight_loop w [0..<length (sorted_tasks (task_types self))] Map.empty"

section \<open>Batch steps\<close>

text \<open>
  \<^verbatim>\<open>fit_on_batch\<close>: the weights get \<^verbatim>\<open>eps\<close> added, data and weights are packaged and
  the engine makes one training step on the raw model, which it updates.
\<close>

definition eps :: real where
  "eps = 1 / 1000"

definition fit_on_batch ::
  "('m, 'l) engine \<Rightarrow> 'm model \<Rightarrow> ndarray \<Rightarrow> ndarray \<Rightarrow> ndarray \<Rightarrow> error + 'l \<times> 'm model" where
  "fit_on_batch eng self X y w =
     (let w' = add_same_shape w (scalar_mult eps (np_ones (shape w))) in
      case get_data_dict self X (Some y) of
        Inl e \<Rightarrow> Inl e
      | Inr d \<Rightarrow>
          (case get_sample_weight self w' of
             Inl e \<Rightarrow> Inl e
           | Inr sample_weight \<Rightarrow>
               (case raw_model self of
                  None \<Rightarrow> Inl AttributeError
                | Some m \<Rightarrow>
                    (case train_on_batch eng m d sample_weight of
                       Inl e \<Rightarrow> Inl e
                     | Inr (loss, m') \<Rightarrow> Inr (loss, self\<lparr>raw_model := Some m'\<rparr>)))))"

text \<open>
  \<^verbatim>\<open>predict_on_batch\<close>: the loop fills one column of \<^verbatim>\<open>y_pred\<close> for each task. What
  the regression branch prints is not part of the result and is left out.
\<close>

fun predict_loop ::
  "task_spec \<Rightarrow> array_dict \<Rightarrow> (nat \<times> string) list \<Rightarrow> ndarray \<Rightarrow> error + ndarray" where
  "predict_loop tt y_pred_dict [] y_pred = Inr y_pred"
| "predict_loop tt y_pred_dict ((ind, task) # rest) y_pred =
     (case lookup tt task of
        Inl e \<Rightarrow> Inl e
      | Inr task_type \<Rightarrow>
          (case (if task_type = ''classification''
                 then (case lookup_map y_pred_dict (task_name ind) of
                         Inl e \<Rightarrow> Inl e
                       | Inr out \<Rightarrow>
                           (case np_argmax1 out of
                              Inl e \<Rightarrow> Inl e
                            | Inr am \<Rightarrow> Inr (np_squeeze am)))
                 else (case lookup_map y_pred_dict (task_name ind) of
                         Inl e \<Rightarrow> Inl e
                       | Inr out \<Rightarrow> Inr (np_squeeze out))) of
             Inl e \<Rightarrow> Inl e
           | Inr y_pred_task \<Rightarrow>
               (case set_col y_pred ind y_pred_task of
                  Inl e \<Rightarrow> Inl e
                | Inr y_pred' \<Rightarrow> predict_loop tt y_pred_dict rest y_pred')))"

definition predict_on_batch :: "('m, 'l) engine \<Rightarrow> 'm model \<Rightarrow> ndarray \<Rightarrow> error + ndarray" where
  "predict_on_batch eng self X =
     (case get_data_dict self X None of
        Inl e \<Rightarrow> Inl e
      | Inr d \<Rightarrow>
          (case raw_model self of
             None \<Rightarrow> Inl AttributeError
           | Some m \<Rightarrow>
               (case engine_predict eng m d of
                  Inl e \<Rightarrow> Inl e
                | Inr y_pred_dict \<Rightarrow>
                    (let sorted = sorted_tasks (task_types self) in
                     case np_shape0 X of
                       Inl e \<Rightarrow> Inl e
                     | Inr nb_samples \<Rightarrow>
                         (case predict_loop (task_types self) y_pred_dict (List.enumerate 0 sorted)
                                 (np_zeros [nb_samples, length sorted]) of
                            Inl e \<Rightarrow> Inl e
                          | Inr y_pred \<Rightarrow> Inr (np_squeeze y_pred))))))"

section \<open>A scenario\<close>

text \<open>
  Two tasks, a classification task \<open>a\<close> and a regression task \<open>b\<close>, four samples of
  three features, and an engine without weights whose predictions are given.
\<close>

definition scenario_tasks :: task_spec where
  "scenario_tasks = [(''b'', ''regression''), (''a'', ''classification'')]"

definition scenario_params :: model_params where
  "scenario_params = \<lparr>data_shape = [3], nb_hidden = 10, init = ''glorot_uniform'',
     activation = ''relu'', dropout = 1 / 2, learning_rate = 1 / 100, decay = 0,
     momentum = 9 / 10, nesterov = True\<rparr>"

definition scenario_model :: "unit model" where
  "scenario_model = \<lparr>model_class = ''MultiTaskDNN'', task_types = scenario_tasks,
     params = scenario_params, raw_model = Some ()\<rparr>"

definition scenario_X :: ndarray where
  "scenario_X = \<lparr>shape = [4, 3], data = [0, 0, 0, 0, 0, 0, 0, 0, 0, 0, 0, 0]\<rparr>"

definition scenario_y :: ndarray where
  "scenario_y = \<lparr>shape = [4, 2], data = [0, 3 / 2, 1, 2, 0, 1 / 2, 1, 3]\<rparr>"

definition scenario_w :: ndarray where
  "scenario_w = \<lparr>shape = [4, 2], data = [1, 1, 1, 1, 1, 1, 1, 1]\<rparr>"

definition fixed_engine :: "array_dict \<Rightarrow> (unit, unit) engine" where
  "fixed_engine out =
     \<lparr>build_graph = (\<lambda>calls. Inr ()), to_json = (\<lambda>m. ''{}''), weights_blob = (\<lambda>m. []),
      model_from_json = (\<lambda>s. Inr ()), load_weights = (\<lambda>m blob. Inr ()),
      train_on_batch = (\<lambda>m d sw. Inr ((), ())), engine_predict = (\<lambda>m d. Inr out)\<rparr>"

text \<open>
  A base class that names the model file \<^verbatim>\<open>model.joblib\<close> and whose own \<^verbatim>\<open>save\<close>
  writes nothing, an empty file system in which every path can be written, and an engine
  whose models are a pair of an architecture description and a weight blob.
\<close>

definition scenario_base :: "'m base" where
  "scenario_base = \<lparr>get_model_filename = (\<lambda>dir. dir @ ''/model.joblib''),
                     base_save = (\<lambda>self dir fs. Inr fs)\<rparr>"

definition scenario_fs :: filesystem where
  "scenario_fs = \<lparr>files = Map.empty, writable = (\<lambda>path. True)\<rparr>"

definition pair_engine :: "array_dict \<Rightarrow> (string \<times> string, unit) engine" where
  "pair_engine out =
     \<lparr>build_graph = (\<lambda>calls. Inr (''{}'', [])), to_json = (\<lambda>m. fst m), weights_blob = (\<lambda>m. snd m),
      model_from_json = (\<lambda>s. Inr (s, [])), load_weights = (\<lambda>m blob. Inr (fst m, blob)),
      train_on_batch = (\<lambda>m d sw. Inr ((), m)), engine_predict = (\<lambda>m d. Inr out)\<rparr>"

text \<open>Predictions of an engine for the four samples: class probabilities and a target.\<close>

definition scenario_out :: array_dict where
  "scenario_out =
     [''task0'' \<mapsto> \<lparr>shape = [4, 2], data = [9 / 10, 1 / 10, 1 / 5, 4 / 5, 3 / 5, 2 / 5, 3 / 10, 7 / 10]\<rparr>,
      ''task1'' \<mapsto> \<lparr>shape = [4, 1], data = [3 / 2, 2, 1 / 2, 3]\<rparr>]"

text \<open>One classification task and a batch of one sample.\<close>

definition single_model :: "unit model" where
  "single_model = \<lparr>model_class = ''SingleTaskDNN'', task_types = [(''a'', ''classification'')],
     params = scenario_params, raw_model = Some ()\<rparr>"

definition single_X :: ndarray where
  "single_X = \<lparr>shape = [1, 3], data = [0, 0, 0]\<rparr>"

definition single_out :: array_dict where
  "single_out = [''task0'' \<mapsto> \<lparr>shape = [1, 2], data = [1 / 5, 4 / 5]\<rparr>]"

section \<open>Properties of the one-hot encoding\<close>

lemma sub_vector:
  "i < length ys \<Longrightarrow> sub (vector ys) i = \<lparr>shape = [], data = [ys ! i]\<rparr>"
  by (simp add: sub_def vector_def take_Suc_conv_app_nth)

lemma eq_truth_scalar: "eq_truth \<lparr>shape = [], data = [v]\<rparr> c = Inr (v = c)"
  by (simp add: eq_truth_def)

lemma length_concat_hot: "length (concat (map hot_row ys)) = 2 * length ys"
  by (induction ys) (simp_all add: hot_row_def)

lemma replicate_two:
  assumes "k < n"
  shows "replicate (2 * (n - k)) (0::real) = [0, 0] @ replicate (2 * (n - Suc k)) 0"
proof -
  from assms have "n - k = Suc (n - Suc k)" by simp
  then have "2 * (n - k) = Suc (Suc (2 * (n - Suc k)))" by simp
  then show ?thesis by simp
qed

lemma set_row_hot:
  assumes "k < length ys" "length r = 2"
  shows "set_row \<lparr>shape = s, data = concat (map hot_row (take k ys)) @ replicate (2 * (length ys - k)) 0\<rparr> k r
       = \<lparr>shape = s, data = concat (map hot_row (take k ys)) @ r @ replicate (2 * (length ys - Suc k)) 0\<rparr>"
proof -
  have len: "length (concat (map hot_row (take k ys))) = k * 2"
    using assms(1) by (simp add: length_concat_hot)
  have rep: "replicate (2 * (length ys - k)) (0::real) = [0, 0] @ replicate (2 * (length ys - Suc k)) 0"
    using assms(1) by (rule replicate_two)
  show ?thesis
    unfolding set_row_def using assms(2) len by (simp add: rep)
qed

lemma one_hot_loop_vector:
  "k \<le> length ys \<Longrightarrow>
   one_hot_loop (vector ys) [k..<length ys]
     \<lparr>shape = s, data = concat (map hot_row (take k ys)) @ replicate (2 * (length ys - k)) 0\<rparr>
   = Inr \<lparr>shape = s, data = concat (map hot_row ys)\<rparr>"
proof (induction "length ys - k" arbitrary: k)
  case 0
  then show ?case by simp
next
  case (Suc d)
  then have k: "k < length ys" by simp
  have step: "take (Suc k) ys = take k ys @ [ys ! k]"
    using k by (simp add: take_Suc_conv_app_nth)
  have IH: "one_hot_loop (vector ys) [Suc k..<length ys]
       \<lparr>shape = s, data = concat (map hot_row (take (Suc k) ys)) @ replicate (2 * (length ys - Suc k)) 0\<rparr>
     = Inr \<lparr>shape = s, data = concat (map hot_row ys)\<rparr>"
    using Suc by simp
  have zeros: "replicate (2 * (length ys - k)) (0::real) = [0, 0] @ replicate (2 * (length ys - Suc k)) 0"
    using k by (rule replicate_two)
  show ?case
  proof (cases "ys ! k = 0")
    case True
    then show ?thesis
      using k IH by (simp add: upt_conv_Cons sub_vector eq_truth_scalar set_row_hot step hot_row_def)
  next
    case False
    show ?thesis
    proof (cases "ys ! k = 1")
      case True
      then show ?thesis
        using k IH by (simp add: upt_conv_Cons sub_vector eq_truth_scalar set_row_hot step hot_row_def)
    next
      case False
      with \<open>ys ! k \<noteq> 0\<close> show ?thesis
        using k IH by (simp add: upt_conv_Cons sub_vector eq_truth_scalar step hot_row_def zeros)
    qed
  qed
qed

lemma to_one_hot_vector:
  "to_one_hot (vector ys) = Inr \<lparr>shape = [length ys, 2], data = concat (map hot_row ys)\<rparr>"
proof -
  have loop: "one_hot_loop (vector ys) [0..<length ys]
          \<lparr>shape = [length ys, 2], data = replicate (length ys * 2) 0\<rparr>
        = Inr \<lparr>shape = [length ys, 2], data = concat (map hot_row ys)\<rparr>"
    using one_hot_loop_vector [of 0 ys "[length ys, 2]"] by (simp add: mult.commute)
  have sh: "shape (vector ys) = [length ys]" by (simp add: vector_def)
  show ?thesis
    unfolding to_one_hot_def np_shape0_def sh by (simp add: np_zeros_def loop)
qed

lemma sub_concat_hot:
  "i < length ys \<Longrightarrow>
   sub \<lparr>shape = [length ys, 2], data = concat (map hot_row ys)\<rparr> i = \<lparr>shape = [2], data = hot_row (ys ! i)\<rparr>"
proof (induction ys arbitrary: i)
  case Nil
  then show ?case by simp
next
  case (Cons y ys)
  have l: "length (hot_row y) = 2" by (simp add: hot_row_def)
  show ?case
  proof (cases i)
    case 0
    then show ?thesis using l by (simp add: sub_def)
  next
    case (Suc j)
    then have "j < length ys" using Cons.prems by simp
    from Cons.IH [OF this] show ?thesis
      using Suc l by (simp add: sub_def)
  qed
qed

text \<open>
  C1. For a label vector \<open>y\<close> of length \<open>n\<close>, \<^verbatim>\<open>to_one_hot(y)\<close> raises nothing and
  returns an array of shape \<open>[n, 2]\<close> whose row \<open>i\<close> is \<open>[1, 0]\<close> when \<open>y[i] = 0\<close>,
  \<open>[0, 1]\<close> when \<open>y[i] = 1\<close> and \<open>[0, 0]\<close> for every other label; row \<open>i\<close> depends
  on \<open>y[i]\<close> only and the rows keep the order of the labels.
\<close>

theorem to_one_hot_rows:
  "\<exists>h. to_one_hot (vector ys) = Inr h \<and> shape h = [length ys, 2] \<and> wf_array h \<and>
       (\<forall>i < length ys.
          sub h i = \<lparr>shape = [2],
                     data = (if ys ! i = 0 then [1, 0] else if ys ! i = 1 then [0, 1] else [0, 0])\<rparr>)"
proof -
  let ?h = "\<lparr>shape = [length ys, 2], data = concat (map hot_row ys)\<rparr>"
  have "to_one_hot (vector ys) = Inr ?h" by (rule to_one_hot_vector)
  moreover have "wf_array ?h" by (simp add: wf_array_def length_concat_hot)
  moreover have "\<forall>i < length ys. sub ?h i = \<lparr>shape = [2],
        data = (if ys ! i = 0 then [1, 0] else if ys ! i = 1 then [0, 1] else [0, 0])\<rparr>"
    by (simp add: sub_concat_hot hot_row_def)
  ultimately show ?thesis by simp
qed

theorem to_one_hot_rows_witness:
  "\<exists>h. to_one_hot (vector [0, 1, 7]) = Inr h \<and> shape h = [3, 2] \<and>
     sub h 0 = \<lparr>shape = [2], data = [1, 0]\<rparr> \<and>
     sub h 1 = \<lparr>shape = [2], data = [0, 1]\<rparr> \<and>
     sub h 2 = \<lparr>shape = [2], data = [0, 0]\<rparr>"
proof -
  from to_one_hot_rows [of "[0, 1, 7]"] obtain h where
    h: "to_one_hot (vector [0, 1, 7]) = Inr h" "shape h = [3, 2]" and
    rows: "\<And>i. i < 3 \<Longrightarrow> sub h i = \<lparr>shape = [2],
       data = (if [0, 1, 7 :: real] ! i = 0 then [1, 0]
               else if [0, 1, 7 :: real] ! i = 1 then [0, 1] else [0, 0])\<rparr>"
    by auto
  from rows [of 0] rows [of 1] rows [of 2] h show ?thesis by simp
qed

lemma digit_char_inj: "a < 10 \<Longrightarrow> b < 10 \<Longrightarrow> digit_char a = digit_char b \<Longrightarrow> a = b"
proof -
  assume a: "a < 10" and b: "b < 10" and e: "digit_char a = digit_char b"
  have "of_char (digit_char a) = (48 + a) mod 256" by (simp add: digit_char_def)
  moreover have "of_char (digit_char b) = (48 + b) mod 256" by (simp add: digit_char_def)
  ultimately have "(48 + a) mod 256 = (48 + b) mod 256" using e by simp
  then show "a = b" using a b by simp
qed

lemma string_of_nat_ne: "string_of_nat n \<noteq> []"
  by (subst string_of_nat.simps) simp

lemma string_of_nat_inj: "string_of_nat n = string_of_nat m \<Longrightarrow> n = m"
proof (induction n arbitrary: m rule: string_of_nat.induct)
  case (1 n)
  show ?case
  proof (cases "n < 10")
    case True
    then have sn: "string_of_nat n = [digit_char n]" by (subst string_of_nat.simps) simp
    show ?thesis
    proof (cases "m < 10")
      case m: True
      then have "string_of_nat m = [digit_char m]" by (subst string_of_nat.simps) simp
      with sn "1.prems" have "digit_char n = digit_char m" by simp
      then show ?thesis using True m by (rule digit_char_inj [rotated 2])
    next
      case False
      then have "string_of_nat m = string_of_nat (m div 10) @ [digit_char (m mod 10)]"
        by (subst string_of_nat.simps) simp
      with sn "1.prems" have "string_of_nat (m div 10) = []" by simp
      then show ?thesis using string_of_nat_ne by blast
    qed
  next
    case False
    then have sn: "string_of_nat n = string_of_nat (n div 10) @ [digit_char (n mod 10)]"
      by (subst string_of_nat.simps) simp
    show ?thesis
    proof (cases "m < 10")
      case True
      then have "string_of_nat m = [digit_char m]" by (subst string_of_nat.simps) simp
      with sn "1.prems" have "string_of_nat (n div 10) = []" by simp
      then show ?thesis using string_of_nat_ne by blast
    next
      case m: False
      then have "string_of_nat m = string_of_nat (m div 10) @ [digit_char (m mod 10)]"
        by (subst string_of_nat.simps) simp
      with sn "1.prems" have e: "string_of_nat (n div 10) = string_of_nat (m div 10)"
        and d: "digit_char (n mod 10) = digit_char (m mod 10)" by simp_all
      have "n div 10 = m div 10" using "1.IH" [OF False e] .
      moreover have "n mod 10 = m mod 10" by (rule digit_char_inj [OF _ _ d]) simp_all
      ultimately show ?thesis by (metis div_mult_mod_eq)
    qed
  qed
qed

lemma task_name_inj [simp]: "task_name i = task_name j \<longleftrightarrow> i = j"
  by (auto simp: task_name_def dest: string_of_nat_inj)

lemma task_name_not_input [simp]: "task_name i \<noteq> ''input''" "''input'' \<noteq> task_name i"
  by (simp_all add: task_name_def)

lemma sorted_tasks_sorted: "sorted (sorted_tasks tt)"
  by (simp add: sorted_tasks_def)

lemma sorted_tasks_distinct: "distinct (sorted_tasks tt)"
  by (simp add: sorted_tasks_def)

lemma sorted_tasks_set: "set (sorted_tasks tt) = fst ` set tt"
  by (simp add: sorted_tasks_def)

lemma task_name_0: "task_name 0 = ''task0''"
  by code_simp

lemma task_name_1: "task_name 1 = ''task1''"
  by code_simp

lemma head_name_0: "head_name 0 = ''dense_head0''"
  by code_simp

lemma head_name_1: "head_name 1 = ''dense_head1''"
  by code_simp

lemma head_name_inj: "head_name i = head_name j \<longleftrightarrow> i = j"
  by (auto simp: head_name_def dest: string_of_nat_inj)

lemma head_name_not_shared:
  "head_name i \<noteq> ''input''" "head_name i \<noteq> ''dense''" "head_name i \<noteq> ''dropout''"
  by (simp_all add: head_name_def)

lemma generated_names:
  "(\<forall>i j. head_name i = head_name j \<longrightarrow> i = j) \<and>
   (\<forall>i j. task_name i = task_name j \<longrightarrow> i = j) \<and>
   (\<forall>i. head_name i = ''dense_head'' @ string_of_nat i \<and>
        task_name i = ''task'' @ string_of_nat i \<and>
        head_name i \<notin> {''input'', ''dense'', ''dropout''})"
proof (intro conjI allI impI)
  fix i j
  show "head_name i = head_name j \<Longrightarrow> i = j" by (simp add: head_name_inj)
  show "task_name i = task_name j \<Longrightarrow> i = j" by simp
  show "head_name i = ''dense_head'' @ string_of_nat i" by (simp only: head_name_def)
  show "task_name i = ''task'' @ string_of_nat i" by (simp only: task_name_def)
  show "head_name i \<notin> {''input'', ''dense'', ''dropout''}"
    using head_name_not_shared [of i] by simp
qed

lemma scenario_sorted: "sorted_tasks scenario_tasks = [''a'', ''b'']"
  by (simp add: sorted_tasks_def scenario_tasks_def)

lemma lookup_sorted_tasks:
  "task \<in> set (sorted_tasks tt) \<Longrightarrow> \<exists>ty. map_of tt task = Some ty \<and> lookup tt task = Inr ty"
proof -
  assume "task \<in> set (sorted_tasks tt)"
  then have "task \<in> fst ` set tt" by (simp add: sorted_tasks_set)
  then have "map_of tt task \<noteq> None" by (simp add: map_of_eq_None_iff)
  then show ?thesis by (auto simp: lookup_def)
qed

lemma nth_concat_rows:
  assumes "\<And>r. r < n \<Longrightarrow> length (f r) = t" "r < n" "i < t"
  shows "concat (map f [0..<n]) ! (r * t + i) = f r ! i"
  using assms
proof (induction n)
  case 0
  then show ?case by simp
next
  case (Suc n)
  have len: "length (concat (map f [0..<n])) = n * t"
    using Suc.prems(1) by (induction n) simp_all
  show ?case
  proof (cases "r < n")
    case True
    then have "r * t + i < n * t"
      using Suc.prems(3) by (metis add.commute mult_Suc less_le_trans add_less_cancel_left mult_le_mono1 Suc_leI)
    then show ?thesis using Suc True len by (simp add: nth_append)
  next
    case False
    then have "r = n" using Suc.prems(2) by simp
    then show ?thesis using len by (simp add: nth_append)
  qed
qed

lemma length_concat_rows:
  "(\<And>r. r < n \<Longrightarrow> length (f r) = t) \<Longrightarrow> length (concat (map f [0..<n])) = n * t"
  by (induction n) simp_all

lemma index_bound: "r < n \<Longrightarrow> i < t \<Longrightarrow> r * t + i < n * (t::nat)"
proof -
  assume r: "r < n" and i: "i < t"
  have "r * t + i < r * t + t" using i by simp
  also have "\<dots> = Suc r * t" by simp
  also have "\<dots> \<le> n * t" using r by (intro mult_le_mono1) simp
  finally show ?thesis .
qed

lemma col_matrix:
  assumes "shape a = [n, t]" "wf_array a" "j < t"
  shows "col a j = Inr (vector (map (\<lambda>r. data a ! (r * t + j)) [0..<n]))"
proof -
  have len: "length (data a) = n * t" using assms by (simp add: wf_array_def)
  have "take (Suc 0) (drop (r * t + j) (data a)) = [data a ! (r * t + j)]" if "r < n" for r
  proof -
    have "r * t + j < length (data a)" using that assms(3) len by (simp add: index_bound)
    then show ?thesis by (simp add: take_Suc_conv_app_nth Cons_nth_drop_Suc [symmetric])
  qed
  then have "concat (map (\<lambda>r. take (Suc 0) (drop (r * t + j) (data a))) [0..<n])
       = concat (map (\<lambda>r. [data a ! (r * t + j)]) [0..<n])"
    by (intro arg_cong [where f = concat] map_cong) simp_all
  also have "\<dots> = map (\<lambda>r. data a ! (r * t + j)) [0..<n]"
    by (induction n) simp_all
  finally show ?thesis using assms by (simp add: col_def vector_def)
qed

lemma weight_loop_upt:
  assumes "shape w = [n, m]" "wf_array w" "t \<le> m" "k \<le> t"
  shows "\<exists>sw'. weight_loop w [k..<t] sw = Inr sw' \<and>
           (\<forall>i. k \<le> i \<and> i < t \<longrightarrow>
              sw' (task_name i) = Some (vector (map (\<lambda>r. data w ! (r * m + i)) [0..<n]))) \<and>
           (\<forall>key. key \<notin> task_name ` {k..<t} \<longrightarrow> sw' key = sw key)"
  using assms(4)
proof (induction "t - k" arbitrary: k sw)
  case 0
  then show ?case by auto
next
  case (Suc d)
  then have k: "k < t" by simp
  let ?c = "vector (map (\<lambda>r. data w ! (r * m + k)) [0..<n])"
  have c: "col w k = Inr ?c"
    using assms(1,2) k assms(3) by (intro col_matrix) simp_all
  have "\<exists>sw'. weight_loop w [Suc k..<t] (sw(task_name k \<mapsto> ?c)) = Inr sw' \<and>
           (\<forall>i. Suc k \<le> i \<and> i < t \<longrightarrow>
              sw' (task_name i) = Some (vector (map (\<lambda>r. data w ! (r * m + i)) [0..<n]))) \<and>
           (\<forall>key. key \<notin> task_name ` {Suc k..<t} \<longrightarrow> sw' key = (sw(task_name k \<mapsto> ?c)) key)"
    by (rule Suc(1)) (use Suc(2) k in simp_all)
  then obtain sw' where
    run: "weight_loop w [Suc k..<t] (sw(task_name k \<mapsto> ?c)) = Inr sw'" and
    new: "\<And>i. Suc k \<le> i \<Longrightarrow> i < t \<Longrightarrow>
              sw' (task_name i) = Some (vector (map (\<lambda>r. data w ! (r * m + i)) [0..<n]))" and
    old: "\<And>key. key \<notin> task_name ` {Suc k..<t} \<Longrightarrow> sw' key = (sw(task_name k \<mapsto> ?c)) key"
    by blast
  have "task_name k \<notin> task_name ` {Suc k..<t}" by auto
  then have here: "sw' (task_name k) = Some ?c"
    using old [of "task_name k"] by simp
  have "weight_loop w [k..<t] sw = Inr sw'"
    using k c run by (simp add: upt_conv_Cons)
  moreover have "sw' (task_name i) = Some (vector (map (\<lambda>r. data w ! (r * m + i)) [0..<n]))"
    if "k \<le> i" "i < t" for i
    using that new [of i] here by (cases "i = k") simp_all
  moreover have "sw' key = sw key" if "key \<notin> task_name ` {k..<t}" for key
  proof -
    from that k have "key \<noteq> task_name k" by auto
    moreover from that have "key \<notin> task_name ` {Suc k..<t}" by auto
    ultimately show ?thesis using old [of key] by simp
  qed
  ultimately show ?case by blast
qed

lemma data_loop_none:
  "set xs \<subseteq> set (sorted_tasks tt) \<Longrightarrow> data_loop tt None (List.enumerate k xs) d = Inr d"
proof (induction xs arbitrary: k)
  case Nil
  then show ?case by simp
next
  case (Cons x xs)
  then obtain ty where "lookup tt x = Inr ty"
    using lookup_sorted_tasks [of x tt] by auto
  then show ?case using Cons by simp
qed

lemma data_loop_step:
  assumes "shape y = [n, m]" "wf_array y" "k < m" "lookup tt x = Inr ty"
  shows "data_loop tt (Some y) ((k, x) # rest) d =
         data_loop tt (Some y) rest
           (if ty = ''classification''
            then d(task_name k \<mapsto> \<lparr>shape = [n, 2],
                     data = concat (map hot_row (map (\<lambda>r. data y ! (r * m + k)) [0..<n]))\<rparr>)
            else if ty = ''regression''
            then d(task_name k \<mapsto> vector (map (\<lambda>r. data y ! (r * m + k)) [0..<n]))
            else d)"
proof -
  let ?c = "vector (map (\<lambda>r. data y ! (r * m + k)) [0..<n])"
  have c: "col y k = Inr ?c" using assms(1-3) by (intro col_matrix) simp_all
  have h: "to_one_hot ?c = Inr \<lparr>shape = [n, 2],
                     data = concat (map hot_row (map (\<lambda>r. data y ! (r * m + k)) [0..<n]))\<rparr>"
    by (simp only: to_one_hot_vector length_map length_upt diff_zero)
  show ?thesis
  proof (cases "ty = ''classification''")
    case True
    then show ?thesis using assms(4) c h by (simp del: map_map)
  next
    case False
    then show ?thesis using assms(4) c by (simp del: map_map)
  qed
qed

lemma data_loop_some:
  assumes "shape y = [n, m]" "wf_array y"
    and E: "\<And>ty i prev. E ty i prev =
            (if ty = ''classification''
             then Some \<lparr>shape = [n, 2],
                        data = concat (map hot_row (map (\<lambda>r. data y ! (r * m + i)) [0..<n]))\<rparr>
             else if ty = ''regression''
             then Some (vector (map (\<lambda>r. data y ! (r * m + i)) [0..<n]))
             else prev)"
  shows "set xs \<subseteq> set (sorted_tasks tt) \<Longrightarrow> k + length xs \<le> m \<Longrightarrow>
    \<exists>d'. data_loop tt (Some y) (List.enumerate k xs) d = Inr d' \<and>
      (\<forall>j < length xs. \<exists>ty. map_of tt (xs ! j) = Some ty \<and>
          d' (task_name (k + j)) = E ty (k + j) (d (task_name (k + j)))) \<and>
      (\<forall>key. key \<notin> task_name ` {k..<k + length xs} \<longrightarrow> d' key = d key)"
proof (induction xs arbitrary: k d)
  case Nil
  then show ?case by simp
next
  case (Cons x xs)
  from Cons.prems obtain ty where ty: "map_of tt x = Some ty" "lookup tt x = Inr ty"
    using lookup_sorted_tasks [of x tt] by auto
  define d1 where "d1 = (if ty = ''classification''
            then d(task_name k \<mapsto> \<lparr>shape = [n, 2],
                     data = concat (map hot_row (map (\<lambda>r. data y ! (r * m + k)) [0..<n]))\<rparr>)
            else if ty = ''regression''
            then d(task_name k \<mapsto> vector (map (\<lambda>r. data y ! (r * m + k)) [0..<n]))
            else d)"
  have k: "k < m" using Cons.prems(2) by simp
  have step: "data_loop tt (Some y) (List.enumerate k (x # xs)) d
            = data_loop tt (Some y) (List.enumerate (Suc k) xs) d1"
    unfolding d1_def enumerate_simps by (rule data_loop_step [OF assms(1,2) k ty(2)])
  have d1k: "d1 (task_name k) = E ty k (d (task_name k))"
    by (simp add: d1_def E)
  have d1o: "d1 key = d key" if "key \<noteq> task_name k" for key
    using that by (simp add: d1_def)
  have "\<exists>d'. data_loop tt (Some y) (List.enumerate (Suc k) xs) d1 = Inr d' \<and>
      (\<forall>j < length xs. \<exists>ty. map_of tt (xs ! j) = Some ty \<and>
          d' (task_name (Suc k + j)) = E ty (Suc k + j) (d1 (task_name (Suc k + j)))) \<and>
      (\<forall>key. key \<notin> task_name ` {Suc k..<Suc k + length xs} \<longrightarrow> d' key = d1 key)"
    by (rule Cons.IH) (use Cons.prems in simp_all)
  then obtain d' where
    run: "data_loop tt (Some y) (List.enumerate (Suc k) xs) d1 = Inr d'" and
    new: "\<And>j. j < length xs \<Longrightarrow> \<exists>ty. map_of tt (xs ! j) = Some ty \<and>
          d' (task_name (Suc k + j)) = E ty (Suc k + j) (d1 (task_name (Suc k + j)))" and
    old: "\<And>key. key \<notin> task_name ` {Suc k..<Suc k + length xs} \<Longrightarrow> d' key = d1 key"
    by blast
  have "task_name k \<notin> task_name ` {Suc k..<Suc k + length xs}" by auto
  then have here: "d' (task_name k) = d1 (task_name k)" by (rule old)
  have run': "data_loop tt (Some y) (List.enumerate k (x # xs)) d = Inr d'"
    using step run by simp
  have new': "\<exists>ty. map_of tt ((x # xs) ! j) = Some ty \<and>
          d' (task_name (k + j)) = E ty (k + j) (d (task_name (k + j)))"
    if "j < length (x # xs)" for j
  proof (cases j)
    case 0
    have "map_of tt ((x # xs) ! 0) = Some ty \<and>
          d' (task_name (k + 0)) = E ty (k + 0) (d (task_name (k + 0)))"
      using ty(1) here d1k by simp
    then show ?thesis unfolding 0 by (rule exI)
  next
    case (Suc j')
    then have j': "j' < length xs" using that by simp
    from new [OF j'] obtain ty' where
      t1: "map_of tt (xs ! j') = Some ty'" and
      t2: "d' (task_name (Suc k + j')) = E ty' (Suc k + j') (d1 (task_name (Suc k + j')))"
      by blast
    have ne: "task_name (Suc k + j') \<noteq> task_name k" by simp
    have "map_of tt ((x # xs) ! j) = Some ty' \<and>
          d' (task_name (k + j)) = E ty' (k + j) (d (task_name (k + j)))"
      using t1 t2 d1o [OF ne] Suc by simp
    then show ?thesis by (rule exI)
  qed
  have old': "d' key = d key" if "key \<notin> task_name ` {k..<k + length (x # xs)}" for key
  proof -
    from that have ne: "key \<noteq> task_name k" by auto
    from that have "key \<notin> task_name ` {Suc k..<Suc k + length xs}" by auto
    then have "d' key = d1 key" by (rule old)
    then show ?thesis using d1o [OF ne] by simp
  qed
  show ?case using run' new' old' by blast
qed

lemma get_data_dict_none: "get_data_dict self X None = Inr [''input'' \<mapsto> X]"
  unfolding get_data_dict_def by (rule data_loop_none) simp

lemma get_data_dict_some:
  assumes "shape y = [n, m]" "wf_array y" "length (sorted_tasks (task_types self)) \<le> m"
  shows "\<exists>d. get_data_dict self X (Some y) = Inr d \<and> d ''input'' = Some X \<and>
      (\<forall>i < length (sorted_tasks (task_types self)). \<exists>ty.
          map_of (task_types self) (sorted_tasks (task_types self) ! i) = Some ty \<and>
          d (task_name i) =
            (if ty = ''classification''
             then Some \<lparr>shape = [n, 2],
                        data = concat (map hot_row (map (\<lambda>r. data y ! (r * m + i)) [0..<n]))\<rparr>
             else if ty = ''regression''
             then Some (vector (map (\<lambda>r. data y ! (r * m + i)) [0..<n]))
             else None)) \<and>
      (\<forall>key. key \<noteq> ''input'' \<and> key \<notin> task_name ` {..<length (sorted_tasks (task_types self))}
          \<longrightarrow> d key = None)"
proof -
  let ?ts = "sorted_tasks (task_types self)"
  let ?E = "\<lambda>ty i prev. if ty = ''classification''
             then Some \<lparr>shape = [n, 2],
                        data = concat (map hot_row (map (\<lambda>r. data y ! (r * m + i)) [0..<n]))\<rparr>
             else if ty = ''regression''
             then Some (vector (map (\<lambda>r. data y ! (r * m + i)) [0..<n]))
             else prev"
  let ?d0 = "[''input'' \<mapsto> X]"
  have "\<exists>d'. data_loop (task_types self) (Some y) (List.enumerate 0 ?ts) ?d0 = Inr d' \<and>
      (\<forall>j < length ?ts. \<exists>ty. map_of (task_types self) (?ts ! j) = Some ty \<and>
          d' (task_name (0 + j)) = ?E ty (0 + j) (?d0 (task_name (0 + j)))) \<and>
      (\<forall>key. key \<notin> task_name ` {0..<0 + length ?ts} \<longrightarrow> d' key = ?d0 key)"
    by (rule data_loop_some [OF assms(1,2)]) (use assms(3) in simp_all)
  then obtain d where
    run: "data_loop (task_types self) (Some y) (List.enumerate 0 ?ts) ?d0 = Inr d" and
    new: "\<And>j. j < length ?ts \<Longrightarrow> \<exists>ty. map_of (task_types self) (?ts ! j) = Some ty \<and>
          d (task_name (0 + j)) = ?E ty (0 + j) (?d0 (task_name (0 + j)))" and
    old: "\<And>key. key \<notin> task_name ` {0..<0 + length ?ts} \<Longrightarrow> d key = ?d0 key"
    by blast
  have "get_data_dict self X (Some y) = Inr d"
    using run by (simp add: get_data_dict_def)
  moreover have "d ''input'' = Some X"
  proof -
    have "''input'' \<notin> task_name ` {0..<0 + length ?ts}" by (auto simp: image_iff)
    from old [OF this] show ?thesis by simp
  qed
  moreover have "\<exists>ty. map_of (task_types self) (?ts ! i) = Some ty \<and>
          d (task_name i) = ?E ty i None" if "i < length ?ts" for i
  proof -
    from new [OF that] obtain ty where
      a: "map_of (task_types self) (?ts ! i) = Some ty" and
      b: "d (task_name (0 + i)) = ?E ty (0 + i) (?d0 (task_name (0 + i)))"
      by blast
    have c: "?d0 (task_name i) = None" by simp
    have "d (task_name i) = ?E ty i None"
      using b c by (simp only: add_0)
    with a show ?thesis by blast
  qed
  moreover have "d key = None"
    if "key \<noteq> ''input'' \<and> key \<notin> task_name ` {..<length ?ts}" for key
  proof -
    from that have "key \<notin> task_name ` {0..<0 + length ?ts}" by (simp add: atLeast0LessThan)
    from old [OF this] that show ?thesis by simp
  qed
  ultimately show ?thesis by blast
qed

lemma add_eps:
  assumes "wf_array w"
  shows "add_same_shape w (scalar_mult eps (np_ones (shape w)))
       = \<lparr>shape = shape w, data = map (\<lambda>x. x + 1 / 1000) (data w)\<rparr>"
proof -
  have "map2 (\<lambda>x y. x + y) (data w) (map (\<lambda>x. eps * x) (replicate (prod_list (shape w)) 1))
      = map (\<lambda>x. x + 1 / 1000) (data w)"
    using assms by (simp add: wf_array_def zip_replicate2 eps_def comp_def)
  then show ?thesis
    by (simp add: add_same_shape_def scalar_mult_def np_ones_def)
qed

lemma get_sample_weight_cols:
  assumes "shape w = [n, m]" "wf_array w" "length (sorted_tasks (task_types self)) \<le> m"
  shows "\<exists>sw. get_sample_weight self w = Inr sw \<and>
      (\<forall>i < length (sorted_tasks (task_types self)).
          col w i = Inr (vector (map (\<lambda>r. data w ! (r * m + i)) [0..<n])) \<and>
          sw (task_name i) = Some (vector (map (\<lambda>r. data w ! (r * m + i)) [0..<n]))) \<and>
      (\<forall>key. key \<notin> task_name ` {..<length (sorted_tasks (task_types self))} \<longrightarrow> sw key = None)"
proof -
  let ?t = "length (sorted_tasks (task_types self))"
  have "\<exists>sw'. weight_loop w [0..<?t] Map.empty = Inr sw' \<and>
           (\<forall>i. 0 \<le> i \<and> i < ?t \<longrightarrow>
              sw' (task_name i) = Some (vector (map (\<lambda>r. data w ! (r * m + i)) [0..<n]))) \<and>
           (\<forall>key. key \<notin> task_name ` {0..<?t} \<longrightarrow> sw' key = Map.empty key)"
    by (rule weight_loop_upt [OF assms]) simp
  then obtain sw where
    run: "weight_loop w [0..<?t] Map.empty = Inr sw" and
    new: "\<And>i. i < ?t \<Longrightarrow>
              sw (task_name i) = Some (vector (map (\<lambda>r. data w ! (r * m + i)) [0..<n]))" and
    old: "\<And>key. key \<notin> task_name ` {0..<?t} \<Longrightarrow> sw key = None"
    by auto
  have "get_sample_weight self w = Inr sw"
    using run by (simp add: get_sample_weight_def)
  moreover have "col w i = Inr (vector (map (\<lambda>r. data w ! (r * m + i)) [0..<n]))" if "i < ?t" for i
    using assms that by (intro col_matrix) simp_all
  moreover have "sw key = None" if "key \<notin> task_name ` {..<?t}" for key
    using that old [of key] by (simp add: atLeast0LessThan)
  ultimately show ?thesis using new by blast
qed

text \<open>
  C4. The sorted task list holds every task identifier once, in ascending lexicographic
  order. \<^verbatim>\<open>get_data_dict(X)\<close> without labels returns the dictionary with the one entry
  \<open>input \<mapsto> X\<close>. With a label matrix \<open>y\<close> that has a column for every task, it
  returns a dictionary with \<open>input \<mapsto> X\<close> and, for the \<open>i\<close>-th task of the sorted list,
  \<open>task{i} \<mapsto> to_one_hot(y[:, i])\<close> when the task is a classification and
  \<open>task{i} \<mapsto> y[:, i]\<close> when it is a regression; there are no other entries.
\<close>

theorem get_data_dict_entries:
  "sorted (sorted_tasks (task_types self)) \<and> distinct (sorted_tasks (task_types self)) \<and>
   set (sorted_tasks (task_types self)) = fst ` set (task_types self) \<and>
   get_data_dict self X None = Inr [''input'' \<mapsto> X] \<and>
   (shape y = [n, m] \<and> wf_array y \<and> length (sorted_tasks (task_types self)) \<le> m \<longrightarrow>
     (\<exists>d. get_data_dict self X (Some y) = Inr d \<and> d ''input'' = Some X \<and>
        (\<forall>i < length (sorted_tasks (task_types self)). \<exists>ty c h.
            map_of (task_types self) (sorted_tasks (task_types self) ! i) = Some ty \<and>
            col y i = Inr c \<and> to_one_hot c = Inr h \<and>
            (ty = ''classification'' \<longrightarrow> d (task_name i) = Some h) \<and>
            (ty = ''regression'' \<longrightarrow> d (task_name i) = Some c) \<and>
            (ty \<noteq> ''classification'' \<and> ty \<noteq> ''regression'' \<longrightarrow> d (task_name i) = None)) \<and>
        dom d \<subseteq> insert ''input'' (task_name ` {..<length (sorted_tasks (task_types self))})))"
proof (intro conjI impI)
  show "sorted (sorted_tasks (task_types self))" by (rule sorted_tasks_sorted)
  show "distinct (sorted_tasks (task_types self))" by (rule sorted_tasks_distinct)
  show "set (sorted_tasks (task_types self)) = fst ` set (task_types self)"
    by (rule sorted_tasks_set)
  show "get_data_dict self X None = Inr [''input'' \<mapsto> X]" by (rule get_data_dict_none)
next
  let ?ts = "sorted_tasks (task_types self)"
  assume a: "shape y = [n, m] \<and> wf_array y \<and> length ?ts \<le> m"
  then have sh: "shape y = [n, m]" and wf: "wf_array y" and le: "length ?ts \<le> m" by simp_all
  from get_data_dict_some [OF sh wf le, of X] obtain d where
    run: "get_data_dict self X (Some y) = Inr d" and inp: "d ''input'' = Some X" and
    new: "\<And>i. i < length ?ts \<Longrightarrow> \<exists>ty.
          map_of (task_types self) (?ts ! i) = Some ty \<and>
          d (task_name i) =
            (if ty = ''classification''
             then Some \<lparr>shape = [n, 2],
                        data = concat (map hot_row (map (\<lambda>r. data y ! (r * m + i)) [0..<n]))\<rparr>
             else if ty = ''regression''
             then Some (vector (map (\<lambda>r. data y ! (r * m + i)) [0..<n]))
             else None)" and
    old: "\<And>key. key \<noteq> ''input'' \<and> key \<notin> task_name ` {..<length ?ts} \<Longrightarrow> d key = None"
    by blast
  have ent: "\<exists>ty c h. map_of (task_types self) (?ts ! i) = Some ty \<and>
            col y i = Inr c \<and> to_one_hot c = Inr h \<and>
            (ty = ''classification'' \<longrightarrow> d (task_name i) = Some h) \<and>
            (ty = ''regression'' \<longrightarrow> d (task_name i) = Some c) \<and>
            (ty \<noteq> ''classification'' \<and> ty \<noteq> ''regression'' \<longrightarrow> d (task_name i) = None)"
    if i: "i < length ?ts" for i
  proof -
    let ?c = "vector (map (\<lambda>r. data y ! (r * m + i)) [0..<n])"
    let ?h = "\<lparr>shape = [n, 2], data = concat (map hot_row (map (\<lambda>r. data y ! (r * m + i)) [0..<n]))\<rparr>"
    from new [OF i] obtain ty where
      ty: "map_of (task_types self) (?ts ! i) = Some ty" and
      e: "d (task_name i) = (if ty = ''classification'' then Some ?h
             else if ty = ''regression'' then Some ?c else None)"
      by blast
    have c: "col y i = Inr ?c" using sh wf i le by (intro col_matrix) simp_all
    have h: "to_one_hot ?c = Inr ?h"
      by (simp only: to_one_hot_vector length_map length_upt diff_zero)
    have "(ty = ''classification'' \<longrightarrow> d (task_name i) = Some ?h) \<and>
          (ty = ''regression'' \<longrightarrow> d (task_name i) = Some ?c) \<and>
          (ty \<noteq> ''classification'' \<and> ty \<noteq> ''regression'' \<longrightarrow> d (task_name i) = None)"
      using e by (simp del: map_map)
    with ty c h show ?thesis by blast
  qed
  have dm: "dom d \<subseteq> insert ''input'' (task_name ` {..<length ?ts})"
  proof
    fix key assume k: "key \<in> dom d"
    show "key \<in> insert ''input'' (task_name ` {..<length ?ts})"
    proof (rule ccontr)
      assume "key \<notin> insert ''input'' (task_name ` {..<length ?ts})"
      then have "key \<noteq> ''input'' \<and> key \<notin> task_name ` {..<length ?ts}" by simp
      then have "d key = None" by (rule old)
      with k show False by auto
    qed
  qed
  show "\<exists>d. get_data_dict self X (Some y) = Inr d \<and> d ''input'' = Some X \<and>
        (\<forall>i < length ?ts. \<exists>ty c h.
            map_of (task_types self) (?ts ! i) = Some ty \<and>
            col y i = Inr c \<and> to_one_hot c = Inr h \<and>
            (ty = ''classification'' \<longrightarrow> d (task_name i) = Some h) \<and>
            (ty = ''regression'' \<longrightarrow> d (task_name i) = Some c) \<and>
            (ty \<noteq> ''classification'' \<and> ty \<noteq> ''regression'' \<longrightarrow> d (task_name i) = None)) \<and>
        dom d \<subseteq> insert ''input'' (task_name ` {..<length ?ts})"
    using run inp ent dm by blast
qed

theorem get_data_dict_entries_witness:
  "shape scenario_y = [4, 2] \<and> wf_array scenario_y \<and>
   length (sorted_tasks (task_types scenario_model)) \<le> 2 \<and>
   sorted (sorted_tasks (task_types scenario_model)) \<and>
   (\<exists>d. get_data_dict scenario_model scenario_X (Some scenario_y) = Inr d \<and>
        d ''input'' = Some scenario_X \<and>
        d ''task0'' = Some \<lparr>shape = [4, 2], data = [1, 0, 0, 1, 1, 0, 0, 1]\<rparr> \<and>
        d ''task1'' = Some \<lparr>shape = [4], data = [3 / 2, 2, 1 / 2, 3]\<rparr> \<and>
        dom d \<subseteq> insert ''input'' (task_name ` {..<length (sorted_tasks (task_types scenario_model))}))"
proof -
  let ?ts = "sorted_tasks (task_types scenario_model)"
  have ts: "?ts = [''a'', ''b'']" by (simp add: scenario_model_def scenario_sorted)
  have h: "shape scenario_y = [4, 2] \<and> wf_array scenario_y \<and> length ?ts \<le> 2"
    by (simp add: scenario_y_def wf_array_def ts)
  from get_data_dict_entries [of scenario_model scenario_X scenario_y 4 2] h
  obtain d where
    so: "sorted ?ts" and
    run: "get_data_dict scenario_model scenario_X (Some scenario_y) = Inr d" and
    inp: "d ''input'' = Some scenario_X" and
    ent: "\<And>i. i < length ?ts \<Longrightarrow> \<exists>ty c h.
            map_of (task_types scenario_model) (?ts ! i) = Some ty \<and>
            col scenario_y i = Inr c \<and> to_one_hot c = Inr h \<and>
            (ty = ''classification'' \<longrightarrow> d (task_name i) = Some h) \<and>
            (ty = ''regression'' \<longrightarrow> d (task_name i) = Some c) \<and>
            (ty \<noteq> ''classification'' \<and> ty \<noteq> ''regression'' \<longrightarrow> d (task_name i) = None)" and
    dm: "dom d \<subseteq> insert ''input'' (task_name ` {..<length ?ts})"
    by blast
  have up: "[0..<4] = [0, 1, 2, 3]" by (simp add: upt_rec)
  have c0: "col scenario_y 0 = Inr (vector [0, 1, 0, 1])"
    by (simp add: col_def scenario_y_def vector_def up)
  have c1: "col scenario_y 1 = Inr (vector [3 / 2, 2, 1 / 2, 3])"
    by (simp add: col_def scenario_y_def vector_def up)
  have h0: "to_one_hot (vector [0, 1, 0, 1]) = Inr \<lparr>shape = [4, 2], data = [1, 0, 0, 1, 1, 0, 0, 1]\<rparr>"
    by (simp add: to_one_hot_vector hot_row_def)
  have m0: "map_of (task_types scenario_model) ''a'' = Some ''classification''"
    by (simp add: scenario_model_def scenario_tasks_def)
  have m1: "map_of (task_types scenario_model) ''b'' = Some ''regression''"
    by (simp add: scenario_model_def scenario_tasks_def)
  have e0: "d ''task0'' = Some \<lparr>shape = [4, 2], data = [1, 0, 0, 1, 1, 0, 0, 1]\<rparr>"
    using ent [of 0] unfolding ts by (simp add: m0 c0 h0 task_name_0)
  have e1: "d ''task1'' = Some \<lparr>shape = [4], data = [3 / 2, 2, 1 / 2, 3]\<rparr>"
  proof -
    have c1': "col scenario_y (Suc 0) = Inr (vector [3 / 2, 2, 1 / 2, 3])" using c1 by simp
    have t1: "task_name (Suc 0) = ''task1''" using task_name_1 by simp
    from ent [of 1] show ?thesis unfolding ts by (simp add: m1 c1' t1 vector_def)
  qed
  show ?thesis using h so run inp e0 e1 dm by blast
qed

text \<open>
  C3. When \<^verbatim>\<open>fit_on_batch(X, y, w)\<close> reaches the engine, with a weight matrix \<open>w\<close> of
  shape \<open>[n, m]\<close> that has a column for every task, the sample weights it passes to
  \<^verbatim>\<open>train_on_batch\<close> map \<open>task{i}\<close>, for every task index \<open>i\<close>, to column \<open>i\<close> of
  \<open>w + 0.001\<close>: the vector of the entries \<open>w[r, i] + 0.001\<close>. They have no other key.
\<close>

theorem fit_on_batch_sample_weight:
  assumes "shape w = [n, m]" "wf_array w" "length (sorted_tasks (task_types self)) \<le> m"
    and "get_data_dict self X (Some y) = Inr d" "raw_model self = Some mdl"
  shows "\<exists>sw. fit_on_batch eng self X y w =
            (case train_on_batch eng mdl d sw of
               Inl e \<Rightarrow> Inl e
             | Inr (loss, mdl') \<Rightarrow> Inr (loss, self\<lparr>raw_model := Some mdl'\<rparr>)) \<and>
          (\<forall>i < length (sorted_tasks (task_types self)).
             col \<lparr>shape = shape w, data = map (\<lambda>x. x + 1 / 1000) (data w)\<rparr> i
               = Inr \<lparr>shape = [n], data = map (\<lambda>r. data w ! (r * m + i) + 1 / 1000) [0..<n]\<rparr> \<and>
             sw (task_name i)
               = Some \<lparr>shape = [n], data = map (\<lambda>r. data w ! (r * m + i) + 1 / 1000) [0..<n]\<rparr>) \<and>
          dom sw = task_name ` {..<length (sorted_tasks (task_types self))}"
proof -
  let ?t = "length (sorted_tasks (task_types self))"
  let ?w = "\<lparr>shape = shape w, data = map (\<lambda>x. x + 1 / 1000) (data w)\<rparr>"
  have len: "length (data w) = n * m" using assms(1,2) by (simp add: wf_array_def)
  have sh: "shape ?w = [n, m]" using assms(1) by simp
  have wf: "wf_array ?w" using assms(1,2) by (simp add: wf_array_def)
  from get_sample_weight_cols [OF sh wf assms(3)] obtain sw where
    run: "get_sample_weight self ?w = Inr sw" and
    new: "\<And>i. i < ?t \<Longrightarrow>
          col ?w i = Inr (vector (map (\<lambda>r. data ?w ! (r * m + i)) [0..<n])) \<and>
          sw (task_name i) = Some (vector (map (\<lambda>r. data ?w ! (r * m + i)) [0..<n]))" and
    old: "\<And>key. key \<notin> task_name ` {..<?t} \<Longrightarrow> sw key = None"
    by blast
  have entry: "vector (map (\<lambda>r. data ?w ! (r * m + i)) [0..<n])
        = \<lparr>shape = [n], data = map (\<lambda>r. data w ! (r * m + i) + 1 / 1000) [0..<n]\<rparr>"
    if "i < ?t" for i
  proof -
    have "data ?w ! (r * m + i) = data w ! (r * m + i) + 1 / 1000" if "r < n" for r
    proof -
      have "r * m + i < length (data w)"
        using that \<open>i < ?t\<close> assms(3) len by (simp add: index_bound)
      then show ?thesis by simp
    qed
    then have "map (\<lambda>r. data ?w ! (r * m + i)) [0..<n]
             = map (\<lambda>r. data w ! (r * m + i) + 1 / 1000) [0..<n]"
      by (intro map_cong) simp_all
    then show ?thesis by (simp add: vector_def)
  qed
  have fit: "fit_on_batch eng self X y w =
            (case train_on_batch eng mdl d sw of
               Inl e \<Rightarrow> Inl e
             | Inr (loss, mdl') \<Rightarrow> Inr (loss, self\<lparr>raw_model := Some mdl'\<rparr>))"
    by (simp add: fit_on_batch_def add_eps [OF assms(2)] assms(4,5) run)
  have ent: "col ?w i = Inr \<lparr>shape = [n], data = map (\<lambda>r. data w ! (r * m + i) + 1 / 1000) [0..<n]\<rparr> \<and>
             sw (task_name i) = Some \<lparr>shape = [n], data = map (\<lambda>r. data w ! (r * m + i) + 1 / 1000) [0..<n]\<rparr>"
    if "i < ?t" for i
    using new [OF that] entry [OF that] by simp
  have dm: "dom sw = task_name ` {..<?t}"
  proof
    show "dom sw \<subseteq> task_name ` {..<?t}"
    proof
      fix key assume k: "key \<in> dom sw"
      show "key \<in> task_name ` {..<?t}"
      proof (rule ccontr)
        assume "key \<notin> task_name ` {..<?t}"
        then have "sw key = None" by (rule old)
        with k show False by auto
      qed
    qed
    show "task_name ` {..<?t} \<subseteq> dom sw"
    proof
      fix key assume "key \<in> task_name ` {..<?t}"
      then obtain i where "i < ?t" "key = task_name i" by auto
      with ent [of i] show "key \<in> dom sw" by auto
    qed
  qed
  show ?thesis using fit ent dm by blast
qed

theorem fit_on_batch_sample_weight_witness:
  "\<exists>d sw. get_data_dict scenario_model scenario_X (Some scenario_y) = Inr d \<and>
     fit_on_batch (fixed_engine Map.empty) scenario_model scenario_X scenario_y scenario_w =
            (case train_on_batch (fixed_engine Map.empty) () d sw of
               Inl e \<Rightarrow> Inl e
             | Inr (loss, mdl') \<Rightarrow> Inr (loss, scenario_model\<lparr>raw_model := Some mdl'\<rparr>)) \<and>
     sw (task_name 0) = Some \<lparr>shape = [4], data = [1001 / 1000, 1001 / 1000, 1001 / 1000, 1001 / 1000]\<rparr> \<and>
     sw (task_name 1) = Some \<lparr>shape = [4], data = [1001 / 1000, 1001 / 1000, 1001 / 1000, 1001 / 1000]\<rparr>"
proof -
  have ts: "length (sorted_tasks (task_types scenario_model)) = 2"
    by (simp add: scenario_model_def scenario_sorted)
  have y: "shape scenario_y = [4, 2]" "wf_array scenario_y"
    by (simp_all add: scenario_y_def wf_array_def)
  have w: "shape scenario_w = [4, 2]" "wf_array scenario_w"
    by (simp_all add: scenario_w_def wf_array_def)
  have rm: "raw_model scenario_model = Some ()" by (simp add: scenario_model_def)
  from get_data_dict_some [OF y, of scenario_model scenario_X] ts obtain d where
    d: "get_data_dict scenario_model scenario_X (Some scenario_y) = Inr d"
    by auto
  have le: "length (sorted_tasks (task_types scenario_model)) \<le> 2" using ts by simp
  from fit_on_batch_sample_weight [OF w le d rm, of "fixed_engine Map.empty"] obtain sw where
    fit: "fit_on_batch (fixed_engine Map.empty) scenario_model scenario_X scenario_y scenario_w =
            (case train_on_batch (fixed_engine Map.empty) () d sw of
               Inl e \<Rightarrow> Inl e
             | Inr (loss, mdl') \<Rightarrow> Inr (loss, scenario_model\<lparr>raw_model := Some mdl'\<rparr>))" and
    ent: "\<And>i. i < 2 \<Longrightarrow> sw (task_name i)
               = Some \<lparr>shape = [4], data = map (\<lambda>r. data scenario_w ! (r * 2 + i) + 1 / 1000) [0..<4]\<rparr>"
    unfolding ts by blast
  have up: "[0..<4] = [0, 1, 2, 3]" by (simp add: upt_rec)
  have e0: "sw (task_name 0) = Some \<lparr>shape = [4], data = [1001 / 1000, 1001 / 1000, 1001 / 1000, 1001 / 1000]\<rparr>"
    using ent [of 0] by (simp add: up scenario_w_def)
  have e1: "sw (task_name 1) = Some \<lparr>shape = [4], data = [1001 / 1000, 1001 / 1000, 1001 / 1000, 1001 / 1000]\<rparr>"
    using ent [of 1] by (simp add: up scenario_w_def)
  show ?thesis using d fit e0 e1 by blast
qed

lemma splitext_append: "fst (splitext p) @ snd (splitext p) = p"
  by (simp add: splitext_def Let_def)

lemma with_ext_json_h5: "with_ext f ''json'' \<noteq> with_ext f ''h5''"
  by (simp add: with_ext_def)

lemma KerasModel_save_ok:
  assumes "base_save base self dir fs = Inr fs1" "raw_model self = Some mdl"
    and "writable fs1 (with_ext (fst (splitext (get_model_filename base dir))) ''json'')"
    and "writable fs1 (with_ext (fst (splitext (get_model_filename base dir))) ''h5'')"
  shows "KerasModel_save eng base self dir fs =
         Inr (fs1\<lparr>files := (files fs1)
                (with_ext (fst (splitext (get_model_filename base dir))) ''json'' \<mapsto> to_json eng mdl,
                 with_ext (fst (splitext (get_model_filename base dir))) ''h5'' \<mapsto> weights_blob eng mdl)\<rparr>)"
  using assms by (simp add: KerasModel_save_def get_raw_model_def write_file_def Let_def)

lemma KerasModel_load_ok:
  assumes "files fs (with_ext (fst (splitext (get_model_filename base dir))) ''json'') = Some js"
    and "model_from_json eng js = Inr m0"
    and "files fs (with_ext (fst (splitext (get_model_filename base dir))) ''h5'') = Some blob"
    and "load_weights eng m0 blob = Inr m1"
  shows "KerasModel_load eng base self dir fs = Inr (self\<lparr>raw_model := Some m1\<rparr>)"
  using assms by (simp add: KerasModel_load_def read_file_def Let_def)

lemma KerasModel_save_Inr:
  assumes "KerasModel_save eng base self dir fs = Inr fs'"
  shows "\<exists>fs1 mdl. base_save base self dir fs = Inr fs1 \<and> raw_model self = Some mdl \<and>
     fs' = fs1\<lparr>files := (files fs1)
                (with_ext (fst (splitext (get_model_filename base dir))) ''json'' \<mapsto> to_json eng mdl,
                 with_ext (fst (splitext (get_model_filename base dir))) ''h5'' \<mapsto> weights_blob eng mdl)\<rparr>"
  using assms
  by (auto simp: KerasModel_save_def get_raw_model_def write_file_def Let_def
      split: sum.splits option.splits if_splits)

text \<open>
  C7. The base filename is the conventional model filename of the directory without its
  extension. When the base class's hook has succeeded, the instance has a raw model and
  both paths can be written, \<^verbatim>\<open>save\<close> changes the files at exactly two distinct paths:
  \<open><base>.json\<close> gets the architecture description of the raw model and
  \<open><base>.h5\<close> its weight blob, whatever was there before. \<^verbatim>\<open>load\<close> derives the same
  two paths, rebuilds a model from the content of \<open><base>.json\<close>, loads the content of
  \<open><base>.h5\<close> into it and makes the result the raw model of the instance.
\<close>

theorem save_load_artifacts:
  "fst (splitext (get_model_filename base dir)) @ snd (splitext (get_model_filename base dir))
     = get_model_filename base dir \<and>
   with_ext (fst (splitext (get_model_filename base dir))) ''json''
     \<noteq> with_ext (fst (splitext (get_model_filename base dir))) ''h5'' \<and>
   (base_save base self dir fs = Inr fs1 \<and> raw_model self = Some mdl \<and>
    writable fs1 (with_ext (fst (splitext (get_model_filename base dir))) ''json'') \<and>
    writable fs1 (with_ext (fst (splitext (get_model_filename base dir))) ''h5'') \<longrightarrow>
      KerasModel_save eng base self dir fs =
        Inr (fs1\<lparr>files := (files fs1)
              (with_ext (fst (splitext (get_model_filename base dir))) ''json'' \<mapsto> to_json eng mdl,
               with_ext (fst (splitext (get_model_filename base dir))) ''h5'' \<mapsto> weights_blob eng mdl)\<rparr>)) \<and>
   (files fs (with_ext (fst (splitext (get_model_filename base dir))) ''json'') = Some js \<and>
    model_from_json eng js = Inr m0 \<and>
    files fs (with_ext (fst (splitext (get_model_filename base dir))) ''h5'') = Some blob \<and>
    load_weights eng m0 blob = Inr m1 \<longrightarrow>
      KerasModel_load eng base self dir fs = Inr (self\<lparr>raw_model := Some m1\<rparr>))"
proof (intro conjI impI)
  show "fst (splitext (get_model_filename base dir)) @ snd (splitext (get_model_filename base dir))
     = get_model_filename base dir" by (rule splitext_append)
next
  show "with_ext (fst (splitext (get_model_filename base dir))) ''json''
     \<noteq> with_ext (fst (splitext (get_model_filename base dir))) ''h5''" by (rule with_ext_json_h5)
next
  assume "base_save base self dir fs = Inr fs1 \<and> raw_model self = Some mdl \<and>
    writable fs1 (with_ext (fst (splitext (get_model_filename base dir))) ''json'') \<and>
    writable fs1 (with_ext (fst (splitext (get_model_filename base dir))) ''h5'')"
  then show "KerasModel_save eng base self dir fs =
        Inr (fs1\<lparr>files := (files fs1)
              (with_ext (fst (splitext (get_model_filename base dir))) ''json'' \<mapsto> to_json eng mdl,
               with_ext (fst (splitext (get_model_filename base dir))) ''h5'' \<mapsto> weights_blob eng mdl)\<rparr>)"
    by (intro KerasModel_save_ok) simp_all
next
  assume a: "files fs (with_ext (fst (splitext (get_model_filename base dir))) ''json'') = Some js \<and>
    model_from_json eng js = Inr m0 \<and>
    files fs (with_ext (fst (splitext (get_model_filename base dir))) ''h5'') = Some blob \<and>
    load_weights eng m0 blob = Inr m1"
  show "KerasModel_load eng base self dir fs = Inr (self\<lparr>raw_model := Some m1\<rparr>)"
    by (rule KerasModel_load_ok [of fs base dir js eng m0 blob m1]) (use a in simp_all)
qed

lemma scenario_filename:
  "splitext ''/tmp/out/model.joblib'' = (''/tmp/out/model'', ''.joblib'')"
  by (simp add: splitext_def rfind_def Let_def)

theorem save_load_artifacts_witness:
  "KerasModel_save (pair_engine Map.empty) scenario_base
      \<lparr>model_class = ''MultiTaskDNN'', task_types = scenario_tasks, params = scenario_params,
        raw_model = Some (''{arch}'', ''W'')\<rparr> ''/tmp/out'' scenario_fs
     = Inr (scenario_fs\<lparr>files := [''/tmp/out/model.json'' \<mapsto> ''{arch}'', ''/tmp/out/model.h5'' \<mapsto> ''W'']\<rparr>) \<and>
   KerasModel_load (pair_engine Map.empty) scenario_base
      \<lparr>model_class = ''MultiTaskDNN'', task_types = scenario_tasks, params = scenario_params,
        raw_model = None\<rparr> ''/tmp/out''
      (scenario_fs\<lparr>files := [''/tmp/out/model.json'' \<mapsto> ''{arch}'', ''/tmp/out/model.h5'' \<mapsto> ''W'']\<rparr>)
     = Inr \<lparr>model_class = ''MultiTaskDNN'', task_types = scenario_tasks, params = scenario_params,
        raw_model = Some (''{arch}'', ''W'')\<rparr>"
  using save_load_artifacts [where base = scenario_base and dir = "''/tmp/out''"
      and self = "\<lparr>model_class = ''MultiTaskDNN'', task_types = scenario_tasks, params = scenario_params,
        raw_model = Some (''{arch}'', ''W'')\<rparr>" and fs = scenario_fs and ?fs1.0 = scenario_fs
      and mdl = "(''{arch}'', ''W'')" and eng = "pair_engine Map.empty"]
    save_load_artifacts [where base = scenario_base and dir = "''/tmp/out''"
      and self = "\<lparr>model_class = ''MultiTaskDNN'', task_types = scenario_tasks, params = scenario_params,
        raw_model = None\<rparr>" and eng = "pair_engine Map.empty"
      and fs = "scenario_fs\<lparr>files := [''/tmp/out/model.json'' \<mapsto> ''{arch}'', ''/tmp/out/model.h5'' \<mapsto> ''W'']\<rparr>"
      and js = "''{arch}''" and ?m0.0 = "(''{arch}'', [])" and blob = "''W''" and ?m1.0 = "(''{arch}'', ''W'')"]
  by (simp add: scenario_filename with_ext_def pair_engine_def scenario_fs_def scenario_base_def)

lemma predict_on_batch_cong:
  assumes "task_types s1 = task_types s2" "raw_model s1 = Some m1" "raw_model s2 = Some m2"
    and "\<And>d. engine_predict eng m1 d = engine_predict eng m2 d"
  shows "predict_on_batch eng s1 X = predict_on_batch eng s2 X"
  unfolding predict_on_batch_def get_data_dict_none assms(1,2,3) option.case assms(4) ..

text \<open>
  C8. Let the engine rebuild, from the architecture description and the weight blob of a
  model, a model with the same predictions. Then \<^verbatim>\<open>save\<close> into a directory followed by
  \<^verbatim>\<open>load\<close> from that directory into a fresh instance for the same tasks succeeds, and
  the fresh instance predicts on every input what the saved instance predicts.
\<close>

theorem save_load_round_trip:
  assumes "KerasModel_save eng base self dir fs = Inr fs'"
    and "task_types fresh = task_types self"
    and "\<And>mdl. \<exists>m0 m1. model_from_json eng (to_json eng mdl) = Inr m0 \<and>
            load_weights eng m0 (weights_blob eng mdl) = Inr m1 \<and>
            (\<forall>d. engine_predict eng m1 d = engine_predict eng mdl d)"
  shows "\<exists>loaded. KerasModel_load eng base fresh dir fs' = Inr loaded \<and>
           (\<forall>X. predict_on_batch eng loaded X = predict_on_batch eng self X)"
proof -
  let ?json = "with_ext (fst (splitext (get_model_filename base dir))) ''json''"
  let ?h5 = "with_ext (fst (splitext (get_model_filename base dir))) ''h5''"
  from KerasModel_save_Inr [OF assms(1)] obtain fs1 mdl where
    rm: "raw_model self = Some mdl" and
    fs': "fs' = fs1\<lparr>files := (files fs1)(?json \<mapsto> to_json eng mdl, ?h5 \<mapsto> weights_blob eng mdl)\<rparr>"
    by blast
  from assms(3) [of mdl] obtain m0 m1 where
    m0: "model_from_json eng (to_json eng mdl) = Inr m0" and
    m1: "load_weights eng m0 (weights_blob eng mdl) = Inr m1" and
    same: "\<And>d. engine_predict eng m1 d = engine_predict eng mdl d"
    by blast
  have j: "files fs' ?json = Some (to_json eng mdl)"
    using with_ext_json_h5 [of "fst (splitext (get_model_filename base dir))"] by (simp add: fs')
  have h: "files fs' ?h5 = Some (weights_blob eng mdl)"
    by (simp add: fs')
  have load: "KerasModel_load eng base fresh dir fs' = Inr (fresh\<lparr>raw_model := Some m1\<rparr>)"
    using j m0 h m1 by (rule KerasModel_load_ok)
  have "predict_on_batch eng (fresh\<lparr>raw_model := Some m1\<rparr>) X = predict_on_batch eng self X" for X
    by (rule predict_on_batch_cong [where ?m1.0 = m1 and ?m2.0 = mdl])
      (use assms(2) rm same in simp_all)
  with load show ?thesis by blast
qed

theorem save_load_round_trip_witness:
  "KerasModel_save (pair_engine scenario_out) scenario_base
      \<lparr>model_class = ''MultiTaskDNN'', task_types = scenario_tasks, params = scenario_params,
        raw_model = Some (''{arch}'', ''W'')\<rparr> ''/tmp/out'' scenario_fs
     = Inr (scenario_fs\<lparr>files := [''/tmp/out/model.json'' \<mapsto> ''{arch}'', ''/tmp/out/model.h5'' \<mapsto> ''W'']\<rparr>) \<and>
   (\<exists>loaded. KerasModel_load (pair_engine scenario_out) scenario_base
        \<lparr>model_class = ''MultiTaskDNN'', task_types = scenario_tasks, params = scenario_params,
          raw_model = None\<rparr> ''/tmp/out''
        (scenario_fs\<lparr>files := [''/tmp/out/model.json'' \<mapsto> ''{arch}'', ''/tmp/out/model.h5'' \<mapsto> ''W'']\<rparr>)
      = Inr loaded \<and>
      (\<forall>X. predict_on_batch (pair_engine scenario_out) loaded X =
           predict_on_batch (pair_engine scenario_out)
             \<lparr>model_class = ''MultiTaskDNN'', task_types = scenario_tasks, params = scenario_params,
               raw_model = Some (''{arch}'', ''W'')\<rparr> X))"
proof -
  let ?self = "\<lparr>model_class = ''MultiTaskDNN'', task_types = scenario_tasks, params = scenario_params,
        raw_model = Some (''{arch}'', ''W'')\<rparr>"
  let ?fresh = "\<lparr>model_class = ''MultiTaskDNN'', task_types = scenario_tasks, params = scenario_params,
        raw_model = None :: (string \<times> string) option\<rparr>"
  let ?fs' = "scenario_fs\<lparr>files := [''/tmp/out/model.json'' \<mapsto> ''{arch}'', ''/tmp/out/model.h5'' \<mapsto> ''W'']\<rparr>"
  have save: "KerasModel_save (pair_engine scenario_out) scenario_base ?self ''/tmp/out'' scenario_fs = Inr ?fs'"
    by (simp add: KerasModel_save_def get_raw_model_def write_file_def Let_def scenario_filename
        with_ext_def pair_engine_def scenario_fs_def scenario_base_def)
  have tt: "task_types ?fresh = task_types ?self" by simp
  have rt: "\<exists>m0 m1. model_from_json (pair_engine scenario_out) (to_json (pair_engine scenario_out) mdl) = Inr m0 \<and>
            load_weights (pair_engine scenario_out) m0 (weights_blob (pair_engine scenario_out) mdl) = Inr m1 \<and>
            (\<forall>d. engine_predict (pair_engine scenario_out) m1 d = engine_predict (pair_engine scenario_out) mdl d)"
    for mdl by (simp add: pair_engine_def)
  from save_load_round_trip [OF save tt rt] save show ?thesis by simp
qed

lemma model_class_update_id:
  "task_types (s\<lparr>model_class := c\<rparr>) = task_types s"
  "raw_model (s\<lparr>model_class := c\<rparr>) = raw_model s"
  by simp_all

text \<open>
  C9. An instance of \<^verbatim>\<open>SingleTaskDNN\<close> differs from an instance of \<^verbatim>\<open>MultiTaskDNN\<close>
  made from the same arguments in its class name only, and no operation of the adapter
  looks at the class name: data and weight packaging, training, prediction and loading
  give the same results whatever the class name is, and saving differs only in the
  instance that the base class's hook is given.
\<close>

theorem SingleTaskDNN_same_as_MultiTaskDNN:
  "new_SingleTaskDNN eng tt mp flag =
     map_sum id (\<lambda>s. s\<lparr>model_class := ''SingleTaskDNN''\<rparr>) (new_MultiTaskDNN eng tt mp flag) \<and>
   get_data_dict (s\<lparr>model_class := c\<rparr>) X y = get_data_dict s X y \<and>
   get_sample_weight (s\<lparr>model_class := c\<rparr>) w = get_sample_weight s w \<and>
   fit_on_batch eng (s\<lparr>model_class := c\<rparr>) X y' w =
     map_sum id (\<lambda>(loss, s'). (loss, s'\<lparr>model_class := c\<rparr>)) (fit_on_batch eng s X y' w) \<and>
   predict_on_batch eng (s\<lparr>model_class := c\<rparr>) X = predict_on_batch eng s X \<and>
   KerasModel_load eng base (s\<lparr>model_class := c\<rparr>) dir fs =
     map_sum id (\<lambda>s'. s'\<lparr>model_class := c\<rparr>) (KerasModel_load eng base s dir fs) \<and>
   KerasModel_save eng base (s\<lparr>model_class := c\<rparr>) dir fs =
     KerasModel_save eng
       (base\<lparr>base_save := \<lambda>self. base_save base (self\<lparr>model_class := c\<rparr>)\<rparr>) s dir fs"
proof (intro conjI)
  show "new_SingleTaskDNN eng tt mp flag =
     map_sum id (\<lambda>s. s\<lparr>model_class := ''SingleTaskDNN''\<rparr>) (new_MultiTaskDNN eng tt mp flag)"
    by (simp add: new_SingleTaskDNN_def new_MultiTaskDNN_def SingleTaskDNN_init_def
        MultiTaskDNN_init_def Model_init_def Let_def split: sum.splits)
  show "get_data_dict (s\<lparr>model_class := c\<rparr>) X y = get_data_dict s X y"
    by (simp add: get_data_dict_def)
  show "get_sample_weight (s\<lparr>model_class := c\<rparr>) w = get_sample_weight s w"
    by (simp add: get_sample_weight_def)
  show "fit_on_batch eng (s\<lparr>model_class := c\<rparr>) X y' w =
     map_sum id (\<lambda>(loss, s'). (loss, s'\<lparr>model_class := c\<rparr>)) (fit_on_batch eng s X y' w)"
    by (simp add: fit_on_batch_def get_data_dict_def get_sample_weight_def Let_def
        split: sum.splits option.splits prod.splits)
  show "predict_on_batch eng (s\<lparr>model_class := c\<rparr>) X = predict_on_batch eng s X"
    unfolding predict_on_batch_def get_data_dict_none model_class_update_id ..
  show "KerasModel_load eng base (s\<lparr>model_class := c\<rparr>) dir fs =
     map_sum id (\<lambda>s'. s'\<lparr>model_class := c\<rparr>) (KerasModel_load eng base s dir fs)"
    by (simp add: KerasModel_load_def Let_def split: sum.splits)
  show "KerasModel_save eng base (s\<lparr>model_class := c\<rparr>) dir fs =
     KerasModel_save eng
       (base\<lparr>base_save := \<lambda>self. base_save base (self\<lparr>model_class := c\<rparr>)\<rparr>) s dir fs"
    by (simp add: KerasModel_save_def get_raw_model_def Let_def split: sum.splits)
qed

theorem SingleTaskDNN_same_as_MultiTaskDNN_witness:
  "new_SingleTaskDNN (fixed_engine scenario_out) scenario_tasks scenario_params False =
     Inr (scenario_model\<lparr>model_class := ''SingleTaskDNN'', raw_model := None\<rparr>) \<and>
   predict_on_batch (fixed_engine scenario_out) (scenario_model\<lparr>model_class := ''SingleTaskDNN''\<rparr>)
       scenario_X
     = predict_on_batch (fixed_engine scenario_out) scenario_model scenario_X"
  using SingleTaskDNN_same_as_MultiTaskDNN [where eng = "fixed_engine scenario_out"
      and tt = scenario_tasks and mp = scenario_params and flag = False and s = scenario_model
      and c = "''SingleTaskDNN''" and X = scenario_X]
  by (simp add: new_MultiTaskDNN_def MultiTaskDNN_init_def Model_init_def scenario_model_def)

lemma head_loop_calls:
  assumes H: "\<And>ty i. H ty i =
      (if ty = ''classification''
       then [AddNode (Dense 2 (init mp) ''softmax'') (head_name i) top_layer]
       else if ty = ''regression''
       then [AddNode (Dense 1 (init mp) ''linear'') (head_name i) top_layer]
       else []) @ [AddOutput (task_name i) (head_name i)]"
  shows "set xs \<subseteq> set (sorted_tasks tt) \<Longrightarrow>
    \<exists>hs. head_loop tt mp top_layer (List.enumerate k xs) calls = Inr (calls @ concat hs) \<and>
      length hs = length xs \<and>
      (\<forall>j < length xs. \<exists>ty. map_of tt (xs ! j) = Some ty \<and> hs ! j = H ty (k + j))"
proof (induction xs arbitrary: k calls)
  case Nil
  have "head_loop tt mp top_layer (List.enumerate k []) calls = Inr (calls @ concat [])" by simp
  then show ?case by (intro exI [of _ "[]"]) simp
next
  case (Cons x xs)
  from Cons.prems obtain ty where ty: "map_of tt x = Some ty" "lookup tt x = Inr ty"
    using lookup_sorted_tasks [of x tt] by auto
  have step: "head_loop tt mp top_layer (List.enumerate k (x # xs)) calls
            = head_loop tt mp top_layer (List.enumerate (Suc k) xs) (calls @ H ty k)"
    by (simp add: enumerate_simps ty H)
  have "\<exists>hs. head_loop tt mp top_layer (List.enumerate (Suc k) xs) (calls @ H ty k)
              = Inr ((calls @ H ty k) @ concat hs) \<and>
      length hs = length xs \<and>
      (\<forall>j < length xs. \<exists>ty. map_of tt (xs ! j) = Some ty \<and> hs ! j = H ty (Suc k + j))"
    by (rule Cons.IH) (use Cons.prems in simp)
  then obtain hs where
    run: "head_loop tt mp top_layer (List.enumerate (Suc k) xs) (calls @ H ty k)
              = Inr ((calls @ H ty k) @ concat hs)" and
    len: "length hs = length xs" and
    ent: "\<And>j. j < length xs \<Longrightarrow> \<exists>ty. map_of tt (xs ! j) = Some ty \<and> hs ! j = H ty (Suc k + j)"
    by blast
  have run': "head_loop tt mp top_layer (List.enumerate k (x # xs)) calls = Inr (calls @ concat (H ty k # hs))"
    using step run by simp
  have len': "length (H ty k # hs) = length (x # xs)" using len by simp
  have ent': "\<exists>ty'. map_of tt ((x # xs) ! j) = Some ty' \<and> (H ty k # hs) ! j = H ty' (k + j)"
    if "j < length (x # xs)" for j
  proof (cases j)
    case 0
    then show ?thesis using ty(1) by simp
  next
    case (Suc j')
    then have "j' < length xs" using that by simp
    from ent [OF this] show ?thesis using Suc by simp
  qed
  show ?case using run' len' ent' by blast
qed

lemma loss_loop_entries:
  assumes L: "\<And>ty prev. L ty prev =
      (if ty = ''classification'' then Some ''binary_crossentropy''
       else if ty = ''regression'' then Some ''mean_squared_error'' else prev)"
  shows "set xs \<subseteq> set (sorted_tasks tt) \<Longrightarrow>
    \<exists>l'. loss_loop tt (List.enumerate k xs) l = Inr l' \<and>
      (\<forall>j < length xs. \<exists>ty. map_of tt (xs ! j) = Some ty \<and>
          l' (task_name (k + j)) = L ty (l (task_name (k + j)))) \<and>
      (\<forall>key. key \<notin> task_name ` {k..<k + length xs} \<longrightarrow> l' key = l key)"
proof (induction xs arbitrary: k l)
  case Nil
  then show ?case by simp
next
  case (Cons x xs)
  from Cons.prems obtain ty where ty: "map_of tt x = Some ty" "lookup tt x = Inr ty"
    using lookup_sorted_tasks [of x tt] by auto
  define l1 where "l1 = (if ty = ''classification'' then l(task_name k \<mapsto> ''binary_crossentropy'')
            else if ty = ''regression'' then l(task_name k \<mapsto> ''mean_squared_error'') else l)"
  have step: "loss_loop tt (List.enumerate k (x # xs)) l = loss_loop tt (List.enumerate (Suc k) xs) l1"
    by (simp add: enumerate_simps ty l1_def)
  have l1k: "l1 (task_name k) = L ty (l (task_name k))"
    by (simp add: l1_def L)
  have l1o: "l1 key = l key" if "key \<noteq> task_name k" for key
    using that by (simp add: l1_def)
  have "\<exists>l'. loss_loop tt (List.enumerate (Suc k) xs) l1 = Inr l' \<and>
      (\<forall>j < length xs. \<exists>ty. map_of tt (xs ! j) = Some ty \<and>
          l' (task_name (Suc k + j)) = L ty (l1 (task_name (Suc k + j)))) \<and>
      (\<forall>key. key \<notin> task_name ` {Suc k..<Suc k + length xs} \<longrightarrow> l' key = l1 key)"
    by (rule Cons.IH) (use Cons.prems in simp)
  then obtain l' where
    run: "loss_loop tt (List.enumerate (Suc k) xs) l1 = Inr l'" and
    new: "\<And>j. j < length xs \<Longrightarrow> \<exists>ty. map_of tt (xs ! j) = Some ty \<and>
          l' (task_name (Suc k + j)) = L ty (l1 (task_name (Suc k + j)))" and
    old: "\<And>key. key \<notin> task_name ` {Suc k..<Suc k + length xs} \<Longrightarrow> l' key = l1 key"
    by blast
  have "task_name k \<notin> task_name ` {Suc k..<Suc k + length xs}" by auto
  then have here: "l' (task_name k) = l1 (task_name k)" by (rule old)
  have run': "loss_loop tt (List.enumerate k (x # xs)) l = Inr l'"
    using step run by simp
  have new': "\<exists>ty. map_of tt ((x # xs) ! j) = Some ty \<and>
          l' (task_name (k + j)) = L ty (l (task_name (k + j)))"
    if "j < length (x # xs)" for j
  proof (cases j)
    case 0
    have "map_of tt ((x # xs) ! 0) = Some ty \<and>
          l' (task_name (k + 0)) = L ty (l (task_name (k + 0)))"
      using ty(1) here l1k by simp
    then show ?thesis unfolding 0 by (rule exI)
  next
    case (Suc j')
    then have j': "j' < length xs" using that by simp
    from new [OF j'] obtain ty' where
      t1: "map_of tt (xs ! j') = Some ty'" and
      t2: "l' (task_name (Suc k + j')) = L ty' (l1 (task_name (Suc k + j')))"
      by blast
    have ne: "task_name (Suc k + j') \<noteq> task_name k" by simp
    have "map_of tt ((x # xs) ! j) = Some ty' \<and>
          l' (task_name (k + j)) = L ty' (l (task_name (k + j)))"
      using t1 t2 l1o [OF ne] Suc by simp
    then show ?thesis by (rule exI)
  qed
  have old': "l' key = l key" if "key \<notin> task_name ` {k..<k + length (x # xs)}" for key
  proof -
    from that have ne: "key \<noteq> task_name k" by auto
    from that have "key \<notin> task_name ` {Suc k..<Suc k + length xs}" by auto
    then have "l' key = l1 key" by (rule old)
    then show ?thesis using l1o [OF ne] by simp
  qed
  show ?case using run' new' old' by blast
qed

lemma graph_calls_heads:
  assumes "data_shape mp = [n_inputs]"
  shows "\<exists>heads loss_dict.
     graph_calls tt mp =
       Inr ([AddInput ''input'' [n_inputs],
             AddNode (Dense (nb_hidden mp) (init mp) (activation mp)) ''dense'' ''input'',
             AddNode (Dropout (dropout mp)) ''dropout'' ''dense'']
            @ concat heads
            @ [Compile \<lparr>lr = learning_rate mp, sgd_decay = decay mp, sgd_momentum = momentum mp,
                        sgd_nesterov = nesterov mp\<rparr> loss_dict]) \<and>
     length heads = length (sorted_tasks tt) \<and>
     (\<forall>i < length (sorted_tasks tt). \<exists>ty.
        map_of tt (sorted_tasks tt ! i) = Some ty \<and>
        heads ! i =
          (if ty = ''classification''
           then [AddNode (Dense 2 (init mp) ''softmax'') (head_name i) ''dropout'']
           else if ty = ''regression''
           then [AddNode (Dense 1 (init mp) ''linear'') (head_name i) ''dropout'']
           else []) @ [AddOutput (task_name i) (head_name i)] \<and>
        loss_dict (task_name i) =
          (if ty = ''classification'' then Some ''binary_crossentropy''
           else if ty = ''regression'' then Some ''mean_squared_error'' else None)) \<and>
     (\<forall>key. key \<notin> task_name ` {..<length (sorted_tasks tt)} \<longrightarrow> loss_dict key = None)"
proof -
  let ?ts = "sorted_tasks tt"
  let ?H = "\<lambda>ty i. (if ty = ''classification''
       then [AddNode (Dense 2 (init mp) ''softmax'') (head_name i) ''dropout'']
       else if ty = ''regression''
       then [AddNode (Dense 1 (init mp) ''linear'') (head_name i) ''dropout'']
       else []) @ [AddOutput (task_name i) (head_name i)]"
  let ?L = "\<lambda>ty prev. (if ty = ''classification'' then Some ''binary_crossentropy''
       else if ty = ''regression'' then Some ''mean_squared_error'' else prev)"
  let ?pre = "[AddInput ''input'' [n_inputs],
             AddNode (Dense (nb_hidden mp) (init mp) (activation mp)) ''dense'' ''input'',
             AddNode (Dropout (dropout mp)) ''dropout'' ''dense'']"
  have "\<exists>hs. head_loop tt mp ''dropout'' (List.enumerate 0 ?ts) ?pre = Inr (?pre @ concat hs) \<and>
      length hs = length ?ts \<and>
      (\<forall>j < length ?ts. \<exists>ty. map_of tt (?ts ! j) = Some ty \<and> hs ! j = ?H ty (0 + j))"
    by (rule head_loop_calls) simp_all
  then obtain hs where
    hrun: "head_loop tt mp ''dropout'' (List.enumerate 0 ?ts) ?pre = Inr (?pre @ concat hs)" and
    hlen: "length hs = length ?ts" and
    hent: "\<And>j. j < length ?ts \<Longrightarrow> \<exists>ty. map_of tt (?ts ! j) = Some ty \<and> hs ! j = ?H ty (0 + j)"
    by blast
  have "\<exists>l'. loss_loop tt (List.enumerate 0 ?ts) Map.empty = Inr l' \<and>
      (\<forall>j < length ?ts. \<exists>ty. map_of tt (?ts ! j) = Some ty \<and>
          l' (task_name (0 + j)) = ?L ty (Map.empty (task_name (0 + j)))) \<and>
      (\<forall>key. key \<notin> task_name ` {0..<0 + length ?ts} \<longrightarrow> l' key = Map.empty key)"
    by (rule loss_loop_entries) simp_all
  then obtain ld where
    lrun: "loss_loop tt (List.enumerate 0 ?ts) Map.empty = Inr ld" and
    lent: "\<And>j. j < length ?ts \<Longrightarrow> \<exists>ty. map_of tt (?ts ! j) = Some ty \<and>
          ld (task_name (0 + j)) = ?L ty (Map.empty (task_name (0 + j)))" and
    lold: "\<And>key. key \<notin> task_name ` {0..<0 + length ?ts} \<Longrightarrow> ld key = None"
    by auto
  have run: "graph_calls tt mp =
       Inr (?pre @ concat hs
            @ [Compile \<lparr>lr = learning_rate mp, sgd_decay = decay mp, sgd_momentum = momentum mp,
                        sgd_nesterov = nesterov mp\<rparr> ld])"
    by (simp add: graph_calls_def assms hrun lrun)
  have ent: "\<exists>ty. map_of tt (?ts ! i) = Some ty \<and> hs ! i = ?H ty i \<and> ld (task_name i) = ?L ty None"
    if i: "i < length ?ts" for i
  proof -
    from hent [OF i] obtain ty where a: "map_of tt (?ts ! i) = Some ty" and b: "hs ! i = ?H ty (0 + i)"
      by blast
    from lent [OF i] a have c: "ld (task_name (0 + i)) = ?L ty (Map.empty (task_name (0 + i)))"
      by auto
    have "hs ! i = ?H ty i" using b by (simp only: add_0)
    moreover have "ld (task_name i) = ?L ty None" using c by (simp only: add_0)
    ultimately show ?thesis using a by blast
  qed
  have old: "ld key = None" if "key \<notin> task_name ` {..<length ?ts}" for key
    using that lold [of key] by (simp add: atLeast0LessThan)
  show ?thesis using run hlen ent old by blast
qed

text \<open>
  C6. With \<^verbatim>\<open>initialize_raw_model\<close> true and a one-component \<^verbatim>\<open>data_shape\<close>, the
  constructor hands the engine these calls, in this order: the input, the shared dense layer
  and the shared dropout layer; then for the \<open>i\<close>-th task in sorted order a dense head
  \<open>dense_head{i}\<close> on the dropout layer, of width 2 with softmax activation for a
  classification and of width 1 with linear activation for a regression, and the output
  \<open>task{i}\<close> on that head; then one \<^verbatim>\<open>compile\<close> with the SGD optimizer made from the
  learning rate, decay, momentum and Nesterov flag of the model parameters and with a loss
  dictionary that gives \<open>task{i}\<close> binary cross-entropy for a classification and
  mean squared error for a regression. The raw model of the instance is what the engine
  builds from these calls. The sorted task list holds every task identifier once, in
  ascending lexicographic order; the names \<open>dense_head{i}\<close> and \<open>task{i}\<close> end in the
  decimal index, differ for different tasks, and no head has the name of the input or of a
  shared layer.
\<close>

theorem construction_heads:
  assumes "data_shape mp = [n_inputs]"
  shows "sorted (sorted_tasks tt) \<and> distinct (sorted_tasks tt) \<and>
   set (sorted_tasks tt) = fst ` set tt \<and>
   (\<forall>i j. head_name i = head_name j \<longrightarrow> i = j) \<and>
   (\<forall>i j. task_name i = task_name j \<longrightarrow> i = j) \<and>
   (\<forall>i. head_name i = ''dense_head'' @ string_of_nat i \<and>
        task_name i = ''task'' @ string_of_nat i \<and>
        head_name i \<notin> {''input'', ''dense'', ''dropout''}) \<and>
   (\<exists>heads loss_dict calls.
     calls = [AddInput ''input'' [n_inputs],
              AddNode (Dense (nb_hidden mp) (init mp) (activation mp)) ''dense'' ''input'',
              AddNode (Dropout (dropout mp)) ''dropout'' ''dense'']
             @ concat heads
             @ [Compile \<lparr>lr = learning_rate mp, sgd_decay = decay mp, sgd_momentum = momentum mp,
                         sgd_nesterov = nesterov mp\<rparr> loss_dict] \<and>
     graph_calls tt mp = Inr calls \<and>
     MultiTaskDNN_init eng cls tt mp True =
       (case build_graph eng calls of
          Inl e \<Rightarrow> Inl e
        | Inr m \<Rightarrow> Inr \<lparr>model_class = cls, task_types = tt, params = mp, raw_model = Some m\<rparr>) \<and>
     length heads = length (sorted_tasks tt) \<and>
     (\<forall>i < length (sorted_tasks tt). \<exists>ty.
        map_of tt (sorted_tasks tt ! i) = Some ty \<and>
        (ty = ''classification'' \<longrightarrow>
           heads ! i = [AddNode (Dense 2 (init mp) ''softmax'') (head_name i) ''dropout'',
                        AddOutput (task_name i) (head_name i)] \<and>
           loss_dict (task_name i) = Some ''binary_crossentropy'') \<and>
        (ty = ''regression'' \<longrightarrow>
           heads ! i = [AddNode (Dense 1 (init mp) ''linear'') (head_name i) ''dropout'',
                        AddOutput (task_name i) (head_name i)] \<and>
           loss_dict (task_name i) = Some ''mean_squared_error'')))"
proof -
  let ?ts = "sorted_tasks tt"
  from graph_calls_heads [OF assms, of tt] obtain heads loss_dict where
    run: "graph_calls tt mp =
       Inr ([AddInput ''input'' [n_inputs],
             AddNode (Dense (nb_hidden mp) (init mp) (activation mp)) ''dense'' ''input'',
             AddNode (Dropout (dropout mp)) ''dropout'' ''dense'']
            @ concat heads
            @ [Compile \<lparr>lr = learning_rate mp, sgd_decay = decay mp, sgd_momentum = momentum mp,
                        sgd_nesterov = nesterov mp\<rparr> loss_dict])" and
    len: "length heads = length ?ts" and
    ent: "\<And>i. i < length ?ts \<Longrightarrow> \<exists>ty.
        map_of tt (?ts ! i) = Some ty \<and>
        heads ! i =
          (if ty = ''classification''
           then [AddNode (Dense 2 (init mp) ''softmax'') (head_name i) ''dropout'']
           else if ty = ''regression''
           then [AddNode (Dense 1 (init mp) ''linear'') (head_name i) ''dropout'']
           else []) @ [AddOutput (task_name i) (head_name i)] \<and>
        loss_dict (task_name i) =
          (if ty = ''classification'' then Some ''binary_crossentropy''
           else if ty = ''regression'' then Some ''mean_squared_error'' else None)"
    by blast
  define calls where "calls = [AddInput ''input'' [n_inputs],
             AddNode (Dense (nb_hidden mp) (init mp) (activation mp)) ''dense'' ''input'',
             AddNode (Dropout (dropout mp)) ''dropout'' ''dense'']
            @ concat heads
            @ [Compile \<lparr>lr = learning_rate mp, sgd_decay = decay mp, sgd_momentum = momentum mp,
                        sgd_nesterov = nesterov mp\<rparr> loss_dict]"
  have run': "graph_calls tt mp = Inr calls" using run by (simp only: calls_def)
  have init: "MultiTaskDNN_init eng cls tt mp True =
       (case build_graph eng calls of
          Inl e \<Rightarrow> Inl e
        | Inr m \<Rightarrow> Inr \<lparr>model_class = cls, task_types = tt, params = mp, raw_model = Some m\<rparr>)"
    by (simp add: MultiTaskDNN_init_def run' Model_init_def split: sum.splits)
  have ent': "\<exists>ty. map_of tt (?ts ! i) = Some ty \<and>
        (ty = ''classification'' \<longrightarrow>
           heads ! i = [AddNode (Dense 2 (init mp) ''softmax'') (head_name i) ''dropout'',
                        AddOutput (task_name i) (head_name i)] \<and>
           loss_dict (task_name i) = Some ''binary_crossentropy'') \<and>
        (ty = ''regression'' \<longrightarrow>
           heads ! i = [AddNode (Dense 1 (init mp) ''linear'') (head_name i) ''dropout'',
                        AddOutput (task_name i) (head_name i)] \<and>
           loss_dict (task_name i) = Some ''mean_squared_error'')"
    if "i < length ?ts" for i
  proof -
    from ent [OF that] obtain ty where
      a: "map_of tt (?ts ! i) = Some ty" and
      b: "heads ! i =
          (if ty = ''classification''
           then [AddNode (Dense 2 (init mp) ''softmax'') (head_name i) ''dropout'']
           else if ty = ''regression''
           then [AddNode (Dense 1 (init mp) ''linear'') (head_name i) ''dropout'']
           else []) @ [AddOutput (task_name i) (head_name i)]" and
      c: "loss_dict (task_name i) =
          (if ty = ''classification'' then Some ''binary_crossentropy''
           else if ty = ''regression'' then Some ''mean_squared_error'' else None)"
      by blast
    have "(ty = ''classification'' \<longrightarrow>
           heads ! i = [AddNode (Dense 2 (init mp) ''softmax'') (head_name i) ''dropout'',
                        AddOutput (task_name i) (head_name i)] \<and>
           loss_dict (task_name i) = Some ''binary_crossentropy'') \<and>
        (ty = ''regression'' \<longrightarrow>
           heads ! i = [AddNode (Dense 1 (init mp) ''linear'') (head_name i) ''dropout'',
                        AddOutput (task_name i) (head_name i)] \<and>
           loss_dict (task_name i) = Some ''mean_squared_error'')"
      using b c by simp
    with a show ?thesis by blast
  qed
  have main: "\<exists>heads loss_dict calls.
     calls = [AddInput ''input'' [n_inputs],
              AddNode (Dense (nb_hidden mp) (init mp) (activation mp)) ''dense'' ''input'',
              AddNode (Dropout (dropout mp)) ''dropout'' ''dense'']
             @ concat heads
             @ [Compile \<lparr>lr = learning_rate mp, sgd_decay = decay mp, sgd_momentum = momentum mp,
                         sgd_nesterov = nesterov mp\<rparr> loss_dict] \<and>
     graph_calls tt mp = Inr calls \<and>
     MultiTaskDNN_init eng cls tt mp True =
       (case build_graph eng calls of
          Inl e \<Rightarrow> Inl e
        | Inr m \<Rightarrow> Inr \<lparr>model_class = cls, task_types = tt, params = mp, raw_model = Some m\<rparr>) \<and>
     length heads = length (sorted_tasks tt) \<and>
     (\<forall>i < length (sorted_tasks tt). \<exists>ty.
        map_of tt (sorted_tasks tt ! i) = Some ty \<and>
        (ty = ''classification'' \<longrightarrow>
           heads ! i = [AddNode (Dense 2 (init mp) ''softmax'') (head_name i) ''dropout'',
                        AddOutput (task_name i) (head_name i)] \<and>
           loss_dict (task_name i) = Some ''binary_crossentropy'') \<and>
        (ty = ''regression'' \<longrightarrow>
           heads ! i = [AddNode (Dense 1 (init mp) ''linear'') (head_name i) ''dropout'',
                        AddOutput (task_name i) (head_name i)] \<and>
           loss_dict (task_name i) = Some ''mean_squared_error''))"
    using calls_def run' init len ent' by blast
  note sorted_tasks_sorted [of tt] sorted_tasks_distinct [of tt] sorted_tasks_set [of tt]
    generated_names
  then show ?thesis using main by (intro conjI) simp_all
qed

theorem construction_heads_witness:
  "data_shape scenario_params = [3] \<and>
   (\<exists>heads loss_dict calls.
      calls = [AddInput ''input'' [3],
               AddNode (Dense 10 ''glorot_uniform'' ''relu'') ''dense'' ''input'',
               AddNode (Dropout (1 / 2)) ''dropout'' ''dense'']
              @ concat heads
              @ [Compile \<lparr>lr = 1 / 100, sgd_decay = 0, sgd_momentum = 9 / 10,
                          sgd_nesterov = True\<rparr> loss_dict] \<and>
      graph_calls scenario_tasks scenario_params = Inr calls \<and>
      length heads = 2 \<and>
      heads ! 0 = [AddNode (Dense 2 ''glorot_uniform'' ''softmax'') ''dense_head0'' ''dropout'',
                   AddOutput ''task0'' ''dense_head0''] \<and>
      heads ! 1 = [AddNode (Dense 1 ''glorot_uniform'' ''linear'') ''dense_head1'' ''dropout'',
                   AddOutput ''task1'' ''dense_head1''] \<and>
      loss_dict ''task0'' = Some ''binary_crossentropy'' \<and>
      loss_dict ''task1'' = Some ''mean_squared_error'' \<and>
      MultiTaskDNN_init (fixed_engine scenario_out) ''MultiTaskDNN'' scenario_tasks scenario_params True
        = Inr scenario_model)"
proof -
  have h: "data_shape scenario_params = [3]" by (simp add: scenario_params_def)
  from construction_heads [OF h, of scenario_tasks "fixed_engine scenario_out" "''MultiTaskDNN''"]
  obtain heads loss_dict calls where
    c: "calls = [AddInput ''input'' [3],
              AddNode (Dense (nb_hidden scenario_params) (init scenario_params)
                 (activation scenario_params)) ''dense'' ''input'',
              AddNode (Dropout (dropout scenario_params)) ''dropout'' ''dense'']
             @ concat heads
             @ [Compile \<lparr>lr = learning_rate scenario_params, sgd_decay = decay scenario_params,
                         sgd_momentum = momentum scenario_params,
                         sgd_nesterov = nesterov scenario_params\<rparr> loss_dict]" and
    a: "graph_calls scenario_tasks scenario_params = Inr calls" and
    b: "MultiTaskDNN_init (fixed_engine scenario_out) ''MultiTaskDNN'' scenario_tasks scenario_params True =
       (case build_graph (fixed_engine scenario_out) calls of
          Inl e \<Rightarrow> Inl e
        | Inr m \<Rightarrow> Inr \<lparr>model_class = ''MultiTaskDNN'', task_types = scenario_tasks,
                         params = scenario_params, raw_model = Some m\<rparr>)" and
    len: "length heads = length (sorted_tasks scenario_tasks)" and
    ent: "\<And>i. i < length (sorted_tasks scenario_tasks) \<Longrightarrow> \<exists>ty.
        map_of scenario_tasks (sorted_tasks scenario_tasks ! i) = Some ty \<and>
        (ty = ''classification'' \<longrightarrow>
           heads ! i = [AddNode (Dense 2 (init scenario_params) ''softmax'') (head_name i) ''dropout'',
                        AddOutput (task_name i) (head_name i)] \<and>
           loss_dict (task_name i) = Some ''binary_crossentropy'') \<and>
        (ty = ''regression'' \<longrightarrow>
           heads ! i = [AddNode (Dense 1 (init scenario_params) ''linear'') (head_name i) ''dropout'',
                        AddOutput (task_name i) (head_name i)] \<and>
           loss_dict (task_name i) = Some ''mean_squared_error'')"
    by blast
  have c': "calls = [AddInput ''input'' [3],
               AddNode (Dense 10 ''glorot_uniform'' ''relu'') ''dense'' ''input'',
               AddNode (Dropout (1 / 2)) ''dropout'' ''dense'']
              @ concat heads
              @ [Compile \<lparr>lr = 1 / 100, sgd_decay = 0, sgd_momentum = 9 / 10,
                          sgd_nesterov = True\<rparr> loss_dict]"
    using c by (simp add: scenario_params_def)
  have l2: "length heads = 2" using len by (simp add: scenario_sorted)
  have m0: "map_of scenario_tasks ''a'' = Some ''classification''"
    by (simp add: scenario_tasks_def)
  have m1: "map_of scenario_tasks ''b'' = Some ''regression''"
    by (simp add: scenario_tasks_def)
  have i0: "init scenario_params = ''glorot_uniform''" by (simp add: scenario_params_def)
  have e0: "heads ! 0 = [AddNode (Dense 2 ''glorot_uniform'' ''softmax'') ''dense_head0'' ''dropout'',
                   AddOutput ''task0'' ''dense_head0''] \<and>
            loss_dict ''task0'' = Some ''binary_crossentropy''"
    using ent [of 0] unfolding scenario_sorted by (simp add: m0 i0 task_name_0 head_name_0)
  have e1: "heads ! 1 = [AddNode (Dense 1 ''glorot_uniform'' ''linear'') ''dense_head1'' ''dropout'',
                   AddOutput ''task1'' ''dense_head1''] \<and>
            loss_dict ''task1'' = Some ''mean_squared_error''"
  proof -
    have t1: "task_name (Suc 0) = ''task1''" using task_name_1 by simp
    have h1: "head_name (Suc 0) = ''dense_head1''" using head_name_1 by simp
    from ent [of 1] show ?thesis unfolding scenario_sorted by (simp add: m1 i0 t1 h1)
  qed
  have r: "MultiTaskDNN_init (fixed_engine scenario_out) ''MultiTaskDNN'' scenario_tasks scenario_params True
        = Inr scenario_model"
    using b by (simp add: fixed_engine_def scenario_model_def)
  show ?thesis using h c' a l2 e0 e1 r by blast
qed

lemma row_length:
  assumes "length d = n * t" "r < n"
  shows "length (take t (drop (r * t) d)) = t"
proof -
  have "Suc r * t \<le> n * t" using assms(2) by (intro mult_le_mono1) simp
  then show ?thesis using assms(1) by simp
qed

lemma row_nth:
  assumes "length d = n * t" "r < n" "i < t"
  shows "take t (drop (r * t) d) ! i = d ! (r * t + i)"
proof -
  have "r * t + i < length d" using assms by (simp add: index_bound)
  then show ?thesis using assms(3) by simp
qed

lemma set_column_entries:
  assumes "length d = n * t" "j < t"
  shows "length (concat (map (\<lambda>r. (take t (drop (r * t) d))[j := f r]) [0..<n])) = n * t"
    and "\<And>r i. r < n \<Longrightarrow> i < t \<Longrightarrow>
           concat (map (\<lambda>r. (take t (drop (r * t) d))[j := f r]) [0..<n]) ! (r * t + i)
           = (if i = j then f r else d ! (r * t + i))"
proof -
  let ?d' = "concat (map (\<lambda>r. (take t (drop (r * t) d))[j := f r]) [0..<n])"
  have len: "length ((take t (drop (r * t) d))[j := f r]) = t" if "r < n" for r
    using row_length [OF assms(1) that] by simp
  show "length ?d' = n * t"
    by (rule length_concat_rows) (rule len)
  fix r i assume r: "r < n" and i: "i < t"
  have "?d' ! (r * t + i) = (take t (drop (r * t) d))[j := f r] ! i"
    by (rule nth_concat_rows [OF len r i])
  also have "\<dots> = (if i = j then f r else take t (drop (r * t) d) ! i)"
    using i row_length [OF assms(1) r] by (simp add: nth_list_update)
  also have "\<dots> = (if i = j then f r else d ! (r * t + i))"
    using row_nth [OF assms(1) r i] by simp
  finally show "?d' ! (r * t + i) = (if i = j then f r else d ! (r * t + i))" .
qed

lemma concat_singletons: "concat (map (\<lambda>r. [f r]) xs) = map f xs"
  by (induction xs) simp_all

lemma set_col_squeezed:
  assumes "shape a = [n, t]" "length vs = n"
  shows "set_col a j (np_squeeze \<lparr>shape = [n], data = vs\<rparr>) =
         Inr \<lparr>shape = [n, t],
              data = concat (map (\<lambda>r. (take t (drop (r * t) (data a)))[j := vs ! r]) [0..<n])\<rparr>"
proof (cases "n = 1")
  case True
  then obtain v where vs: "vs = [v]" using assms(2) by (cases vs) simp_all
  show ?thesis using True assms(1) by (simp add: set_col_def np_squeeze_def vs)
next
  case False
  then show ?thesis using assms(1) by (simp add: set_col_def np_squeeze_def)
qed

lemma squeeze_column: "shape a = [n, 1] \<Longrightarrow> np_squeeze a = np_squeeze \<lparr>shape = [n], data = data a\<rparr>"
  by (simp add: np_squeeze_def)

lemma argmax_two_classes:
  assumes "shape a = [n, 2]"
  shows "np_argmax1 a =
         Inr \<lparr>shape = [n], data = map (\<lambda>r. real (argmax_list [data a ! (r * 2), data a ! (r * 2 + 1)])) [0..<n]\<rparr>"
proof -
  have "[0..<2] = [0, 1]" by (simp add: upt_rec)
  then show ?thesis using assms by (simp add: np_argmax1_def concat_singletons)
qed

lemma predict_step:
  assumes "shape y = [n, t]" "lookup tt task = Inr ty" "out (task_name ind) = Some a"
    and "wf_array a"
    and "shape a = (if ty = ''classification'' then [n, 2] else [n, 1])"
    and V: "\<And>r. V r = (if ty = ''classification''
                          then real (argmax_list [data a ! (r * 2), data a ! (r * 2 + 1)])
                          else data a ! r)"
  shows "predict_loop tt out ((ind, task) # rest) y =
         predict_loop tt out rest
           \<lparr>shape = [n, t],
            data = concat (map (\<lambda>r. (take t (drop (r * t) (data y)))[ind := V r]) [0..<n])\<rparr>"
proof (cases "ty = ''classification''")
  case True
  let ?vs = "map (\<lambda>r. real (argmax_list [data a ! (r * 2), data a ! (r * 2 + 1)])) [0..<n]"
  have sh: "shape a = [n, 2]" using assms(5) True by simp
  have am: "np_argmax1 a = Inr \<lparr>shape = [n], data = ?vs\<rparr>"
    by (rule argmax_two_classes [OF sh])
  have sc: "set_col y ind (np_squeeze \<lparr>shape = [n], data = ?vs\<rparr>) =
         Inr \<lparr>shape = [n, t],
              data = concat (map (\<lambda>r. (take t (drop (r * t) (data y)))[ind := ?vs ! r]) [0..<n])\<rparr>"
    by (rule set_col_squeezed [OF assms(1)]) simp
  have eq: "concat (map (\<lambda>r. (take t (drop (r * t) (data y)))[ind := ?vs ! r]) [0..<n])
          = concat (map (\<lambda>r. (take t (drop (r * t) (data y)))[ind := V r]) [0..<n])"
    by (intro arg_cong [where f = concat] map_cong) (simp_all add: V True)
  have "predict_loop tt out ((ind, task) # rest) y =
        (case set_col y ind (np_squeeze \<lparr>shape = [n], data = ?vs\<rparr>) of
           Inl e \<Rightarrow> Inl e | Inr y' \<Rightarrow> predict_loop tt out rest y')"
    by (simp only: predict_loop.simps assms(2,3) lookup_map_def am True if_True simp_thms sum.case option.case)
  then show ?thesis by (simp only: sc eq sum.case)
next
  case False
  have sh: "shape a = [n, 1]" using assms(5) False by simp
  have len: "length (data a) = n" using assms(4) sh by (simp add: wf_array_def)
  have sq: "np_squeeze a = np_squeeze \<lparr>shape = [n], data = data a\<rparr>"
    by (rule squeeze_column [OF sh])
  have sc: "set_col y ind (np_squeeze \<lparr>shape = [n], data = data a\<rparr>) =
         Inr \<lparr>shape = [n, t],
              data = concat (map (\<lambda>r. (take t (drop (r * t) (data y)))[ind := data a ! r]) [0..<n])\<rparr>"
    by (rule set_col_squeezed [OF assms(1) len])
  have eq: "concat (map (\<lambda>r. (take t (drop (r * t) (data y)))[ind := data a ! r]) [0..<n])
          = concat (map (\<lambda>r. (take t (drop (r * t) (data y)))[ind := V r]) [0..<n])"
    by (intro arg_cong [where f = concat] map_cong) (simp_all add: V False)
  have "predict_loop tt out ((ind, task) # rest) y =
        (case set_col y ind (np_squeeze \<lparr>shape = [n], data = data a\<rparr>) of
           Inl e \<Rightarrow> Inl e | Inr y' \<Rightarrow> predict_loop tt out rest y')"
    by (simp only: predict_loop.simps assms(2,3) lookup_map_def sq False if_False simp_thms sum.case option.case)
  then show ?thesis by (simp only: sc eq sum.case)
qed

lemma predict_loop_entries:
  fixes W :: "nat \<Rightarrow> nat \<Rightarrow> real"
  assumes outs: "\<And>i. i < length (sorted_tasks tt) \<Longrightarrow> \<exists>ty a.
      map_of tt (sorted_tasks tt ! i) = Some ty \<and> out (task_name i) = Some a \<and> wf_array a \<and>
      shape a = (if ty = ''classification'' then [n, 2] else [n, 1]) \<and>
      (\<forall>r. W i r = (if ty = ''classification''
                     then real (argmax_list [data a ! (r * 2), data a ! (r * 2 + 1)])
                     else data a ! r))"
  shows "k \<le> length (sorted_tasks tt) \<Longrightarrow> shape y = [n, length (sorted_tasks tt)] \<Longrightarrow>
    length (data y) = n * length (sorted_tasks tt) \<Longrightarrow>
    \<exists>y'. predict_loop tt out (List.enumerate k (drop k (sorted_tasks tt))) y = Inr y' \<and>
      shape y' = [n, length (sorted_tasks tt)] \<and>
      length (data y') = n * length (sorted_tasks tt) \<and>
      (\<forall>r < n. \<forall>i < length (sorted_tasks tt).
         data y' ! (r * length (sorted_tasks tt) + i) =
           (if k \<le> i then W i r else data y ! (r * length (sorted_tasks tt) + i)))"
proof (induction "length (sorted_tasks tt) - k" arbitrary: k y)
  case 0
  then show ?case by simp
next
  case (Suc d)
  let ?ts = "sorted_tasks tt"
  let ?t = "length ?ts"
  from Suc(2) have k: "k < ?t" by simp
  from outs [OF k] obtain ty a where
    ty: "map_of tt (?ts ! k) = Some ty" and a: "out (task_name k) = Some a" and wf: "wf_array a" and
    sh: "shape a = (if ty = ''classification'' then [n, 2] else [n, 1])" and
    Wk: "\<And>r. W k r = (if ty = ''classification''
                     then real (argmax_list [data a ! (r * 2), data a ! (r * 2 + 1)])
                     else data a ! r)"
    by blast
  have lk: "lookup tt (?ts ! k) = Inr ty" using ty by (simp add: lookup_def)
  define y1 where "y1 = \<lparr>shape = [n, ?t],
            data = concat (map (\<lambda>r. (take ?t (drop (r * ?t) (data y)))[k := W k r]) [0..<n])\<rparr>"
  have dr: "drop k ?ts = ?ts ! k # drop (Suc k) ?ts"
    using k by (simp add: Cons_nth_drop_Suc)
  have step: "predict_loop tt out (List.enumerate k (drop k ?ts)) y
            = predict_loop tt out (List.enumerate (Suc k) (drop (Suc k) ?ts)) y1"
    unfolding y1_def dr [THEN arg_cong, of "List.enumerate k"] enumerate_simps
    by (rule predict_step [where V = "W k" and out = out and ind = k and a = a and ty = ty
          and tt = tt and n = n])
      (rule Suc(4) lk a wf sh Wk)+
  have y1s: "shape y1 = [n, ?t]" by (simp add: y1_def)
  have y1l: "length (data y1) = n * ?t"
    unfolding y1_def by (simp only: ndarray.simps set_column_entries(1) [OF Suc(5) k])
  have y1e: "data y1 ! (r * ?t + i) = (if i = k then W k r else data y ! (r * ?t + i))"
    if "r < n" "i < ?t" for r i
    unfolding y1_def by (simp only: ndarray.simps set_column_entries(2) [OF Suc(5) k that])
  have "\<exists>y'. predict_loop tt out (List.enumerate (Suc k) (drop (Suc k) ?ts)) y1 = Inr y' \<and>
      shape y' = [n, ?t] \<and> length (data y') = n * ?t \<and>
      (\<forall>r < n. \<forall>i < ?t.
         data y' ! (r * ?t + i) = (if Suc k \<le> i then W i r else data y1 ! (r * ?t + i)))"
    by (rule Suc(1)) (use Suc(2) k y1s y1l in simp_all)
  then obtain y' where
    run: "predict_loop tt out (List.enumerate (Suc k) (drop (Suc k) ?ts)) y1 = Inr y'" and
    s': "shape y' = [n, ?t]" and l': "length (data y') = n * ?t" and
    e': "\<And>r i. r < n \<Longrightarrow> i < ?t \<Longrightarrow>
         data y' ! (r * ?t + i) = (if Suc k \<le> i then W i r else data y1 ! (r * ?t + i))"
    by blast
  have run': "predict_loop tt out (List.enumerate k (drop k ?ts)) y = Inr y'"
    using step run by simp
  have e'': "data y' ! (r * ?t + i) = (if k \<le> i then W i r else data y ! (r * ?t + i))"
    if r: "r < n" and i: "i < ?t" for r i
  proof (cases "i = k")
    case True
    then show ?thesis using e' [OF r i] y1e [OF r i] by simp
  next
    case False
    then show ?thesis using e' [OF r i] y1e [OF r i] by auto
  qed
  show ?case using run' s' l' e'' by blast
qed

lemma predict_on_batch_result:
  fixes W :: "nat \<Rightarrow> nat \<Rightarrow> real"
  assumes rm: "raw_model self = Some m"
    and ep: "engine_predict eng m [''input'' \<mapsto> X] = Inr out"
    and sx: "shape X = n # rest"
    and outs: "\<And>i. i < length (sorted_tasks (task_types self)) \<Longrightarrow> \<exists>ty a.
      map_of (task_types self) (sorted_tasks (task_types self) ! i) = Some ty \<and>
      out (task_name i) = Some a \<and> wf_array a \<and>
      shape a = (if ty = ''classification'' then [n, 2] else [n, 1]) \<and>
      (\<forall>r. W i r = (if ty = ''classification''
                     then real (argmax_list [data a ! (r * 2), data a ! (r * 2 + 1)])
                     else data a ! r))"
  shows "\<exists>p. predict_on_batch eng self X = Inr p \<and>
      shape p = filter (\<lambda>d. d \<noteq> 1) [n, length (sorted_tasks (task_types self))] \<and>
      length (data p) = n * length (sorted_tasks (task_types self)) \<and>
      (\<forall>r < n. \<forall>i < length (sorted_tasks (task_types self)).
         data p ! (r * length (sorted_tasks (task_types self)) + i) = W i r)"
proof -
  let ?tt = "task_types self"
  let ?ts = "sorted_tasks ?tt"
  let ?t = "length ?ts"
  let ?y0 = "np_zeros [n, ?t]"
  have s0: "shape ?y0 = [n, ?t]" by (simp add: np_zeros_def)
  have l0: "length (data ?y0) = n * ?t" by (simp add: np_zeros_def)
  have "\<exists>y'. predict_loop ?tt out (List.enumerate 0 (drop 0 ?ts)) ?y0 = Inr y' \<and>
      shape y' = [n, ?t] \<and> length (data y') = n * ?t \<and>
      (\<forall>r < n. \<forall>i < ?t.
         data y' ! (r * ?t + i) = (if 0 \<le> i then W i r else data ?y0 ! (r * ?t + i)))"
    by (rule predict_loop_entries [where W = W and out = out and tt = ?tt and n = n])
      (rule outs, assumption, simp, rule s0, rule l0)
  then obtain y' where
    run: "predict_loop ?tt out (List.enumerate 0 ?ts) ?y0 = Inr y'" and
    s': "shape y' = [n, ?t]" and l': "length (data y') = n * ?t" and
    e': "\<And>r i. r < n \<Longrightarrow> i < ?t \<Longrightarrow> data y' ! (r * ?t + i) = W i r"
    by auto
  have n0: "np_shape0 X = Inr n" using sx by (simp add: np_shape0_def)
  have "predict_on_batch eng self X = Inr (np_squeeze y')"
    by (simp add: predict_on_batch_def get_data_dict_none rm ep n0 run)
  moreover have "shape (np_squeeze y') = filter (\<lambda>d. d \<noteq> 1) [n, ?t]"
    by (simp only: np_squeeze_def ndarray.simps s')
  moreover have "length (data (np_squeeze y')) = n * ?t" using l' by (simp add: np_squeeze_def)
  moreover have "data (np_squeeze y') ! (r * ?t + i) = W i r" if "r < n" "i < ?t" for r i
    using e' [OF that] by (simp add: np_squeeze_def)
  ultimately show ?thesis by blast
qed

lemma predict_on_batch_explicit:
  assumes rm: "raw_model self = Some m"
    and ep: "engine_predict eng m [''input'' \<mapsto> X] = Inr out"
    and sx: "shape X = n # rest"
    and outs: "\<And>i. i < length (sorted_tasks (task_types self)) \<Longrightarrow> \<exists>ty a.
      map_of (task_types self) (sorted_tasks (task_types self) ! i) = Some ty \<and>
      out (task_name i) = Some a \<and> wf_array a \<and>
      shape a = (if ty = ''classification'' then [n, 2] else [n, 1])"
  shows "\<exists>p. predict_on_batch eng self X = Inr p \<and>
      shape p = filter (\<lambda>d. d \<noteq> 1) [n, length (sorted_tasks (task_types self))] \<and>
      length (data p) = n * length (sorted_tasks (task_types self)) \<and>
      (\<forall>r < n. \<forall>i < length (sorted_tasks (task_types self)). \<exists>ty a.
         map_of (task_types self) (sorted_tasks (task_types self) ! i) = Some ty \<and>
         out (task_name i) = Some a \<and>
         data p ! (r * length (sorted_tasks (task_types self)) + i) =
           (if ty = ''classification''
            then real (argmax_list [data a ! (r * 2), data a ! (r * 2 + 1)])
            else data a ! r))"
proof -
  let ?tt = "task_types self"
  let ?ts = "sorted_tasks ?tt"
  let ?t = "length ?ts"
  define W :: "nat \<Rightarrow> nat \<Rightarrow> real" where
    "W = (\<lambda>i r. case map_of ?tt (?ts ! i) of
                  None \<Rightarrow> 0
                | Some ty \<Rightarrow>
                    (case out (task_name i) of
                       None \<Rightarrow> 0
                     | Some a \<Rightarrow>
                         if ty = ''classification''
                         then real (argmax_list [data a ! (r * 2), data a ! (r * 2 + 1)])
                         else data a ! r))"
  have outs': "\<exists>ty a. map_of ?tt (?ts ! i) = Some ty \<and> out (task_name i) = Some a \<and> wf_array a \<and>
      shape a = (if ty = ''classification'' then [n, 2] else [n, 1]) \<and>
      (\<forall>r. W i r = (if ty = ''classification''
                     then real (argmax_list [data a ! (r * 2), data a ! (r * 2 + 1)])
                     else data a ! r))" if "i < ?t" for i
  proof -
    from outs [OF that] obtain ty a where
      f: "map_of ?tt (?ts ! i) = Some ty" "out (task_name i) = Some a" "wf_array a"
         "shape a = (if ty = ''classification'' then [n, 2] else [n, 1])"
      by blast
    have "W i r = (if ty = ''classification''
                     then real (argmax_list [data a ! (r * 2), data a ! (r * 2 + 1)])
                     else data a ! r)" for r
      by (simp add: W_def f(1,2))
    with f show ?thesis by blast
  qed
  from predict_on_batch_result [where W = W, OF rm ep sx outs'] obtain p where
    run: "predict_on_batch eng self X = Inr p" and
    sp: "shape p = filter (\<lambda>d. d \<noteq> 1) [n, ?t]" and
    lp: "length (data p) = n * ?t" and
    ent: "\<And>r i. r < n \<Longrightarrow> i < ?t \<Longrightarrow> data p ! (r * ?t + i) = W i r"
    by blast
  have ent': "\<exists>ty a. map_of ?tt (?ts ! i) = Some ty \<and> out (task_name i) = Some a \<and>
         data p ! (r * ?t + i) =
           (if ty = ''classification''
            then real (argmax_list [data a ! (r * 2), data a ! (r * 2 + 1)])
            else data a ! r)" if r: "r < n" and i: "i < ?t" for r i
  proof -
    from outs' [OF i] obtain ty a where
      f: "map_of ?tt (?ts ! i) = Some ty" "out (task_name i) = Some a" and
      w: "\<And>r. W i r = (if ty = ''classification''
                     then real (argmax_list [data a ! (r * 2), data a ! (r * 2 + 1)])
                     else data a ! r)"
      by blast
    from ent [OF r i] w [of r] have "data p ! (r * ?t + i) =
           (if ty = ''classification''
            then real (argmax_list [data a ! (r * 2), data a ! (r * 2 + 1)])
            else data a ! r)" by (simp only:)
    with f show ?thesis by blast
  qed
  show ?thesis using run sp lp ent' by blast
qed

text \<open>
  C5 (amended). Let the engine return, for the \<open>i\<close>-th task in sorted order, under the
  name \<open>task{i}\<close> an array of shape \<open>[n, 2]\<close> when the task is a classification and of
  shape \<open>[n, 1]\<close> otherwise, \<open>n\<close> being the number of samples of \<open>X\<close>. Then
  \<^verbatim>\<open>predict_on_batch(X)\<close> returns the \<open>n * t\<close> entries of a matrix whose entry in row \<open>r\<close>
  and column \<open>i\<close> is the arg-max of row \<open>r\<close> of that output for a classification and
  entry \<open>r\<close> of that output otherwise: rows keep the sample order, columns the sorted
  task order. The final squeeze drops every dimension of size one: the shape of the result
  is \<open>[n, t]\<close> without its ones, which is \<open>[n]\<close> for one task and \<open>[n, t]\<close> for several
  when \<open>n\<close> is not one.
\<close>

theorem predict_on_batch_columns:
  assumes "raw_model self = Some m"
    and "engine_predict eng m [''input'' \<mapsto> X] = Inr out"
    and "shape X = n # rest"
    and "\<And>i. i < length (sorted_tasks (task_types self)) \<Longrightarrow> \<exists>ty a.
      map_of (task_types self) (sorted_tasks (task_types self) ! i) = Some ty \<and>
      out (task_name i) = Some a \<and> wf_array a \<and>
      shape a = (if ty = ''classification'' then [n, 2] else [n, 1])"
  shows "\<exists>p. predict_on_batch eng self X = Inr p \<and>
      shape p = filter (\<lambda>d. d \<noteq> 1) [n, length (sorted_tasks (task_types self))] \<and>
      length (data p) = n * length (sorted_tasks (task_types self)) \<and>
      (\<forall>r < n. \<forall>i < length (sorted_tasks (task_types self)). \<exists>ty a.
         map_of (task_types self) (sorted_tasks (task_types self) ! i) = Some ty \<and>
         out (task_name i) = Some a \<and>
         data p ! (r * length (sorted_tasks (task_types self)) + i) =
           (if ty = ''classification''
            then real (argmax_list [data a ! (r * 2), data a ! (r * 2 + 1)])
            else data a ! r)) \<and>
      (n \<noteq> 1 \<and> length (sorted_tasks (task_types self)) = 1 \<longrightarrow> shape p = [n]) \<and>
      (n \<noteq> 1 \<and> length (sorted_tasks (task_types self)) \<noteq> 1 \<longrightarrow>
         shape p = [n, length (sorted_tasks (task_types self))])"
proof -
  let ?t = "length (sorted_tasks (task_types self))"
  from predict_on_batch_explicit [OF assms] obtain p where
    run: "predict_on_batch eng self X = Inr p" and
    sp: "shape p = filter (\<lambda>d. d \<noteq> 1) [n, ?t]" and
    lp: "length (data p) = n * ?t" and
    ent: "\<forall>r < n. \<forall>i < ?t. \<exists>ty a.
         map_of (task_types self) (sorted_tasks (task_types self) ! i) = Some ty \<and>
         out (task_name i) = Some a \<and>
         data p ! (r * ?t + i) =
           (if ty = ''classification''
            then real (argmax_list [data a ! (r * 2), data a ! (r * 2 + 1)])
            else data a ! r)"
    by blast
  have s1: "n \<noteq> 1 \<and> ?t = 1 \<longrightarrow> shape p = [n]" using sp by simp
  have s2: "n \<noteq> 1 \<and> ?t \<noteq> 1 \<longrightarrow> shape p = [n, ?t]" using sp by simp
  show ?thesis using run sp lp ent s1 s2 by blast
qed

lemma scenario_outputs:
  assumes "i < length (sorted_tasks (task_types scenario_model))"
  shows "\<exists>ty a. map_of (task_types scenario_model) (sorted_tasks (task_types scenario_model) ! i) = Some ty \<and>
      scenario_out (task_name i) = Some a \<and> wf_array a \<and>
      shape a = (if ty = ''classification'' then [4, 2] else [4, 1])"
proof -
  have ts: "sorted_tasks (task_types scenario_model) = [''a'', ''b'']"
    by (simp add: scenario_model_def scenario_sorted)
  from assms have "i = 0 \<or> i = 1" unfolding ts by auto
  then show ?thesis
  proof
    assume "i = 0"
    then show ?thesis
      unfolding ts by (simp add: scenario_model_def scenario_tasks_def scenario_out_def task_name_0 wf_array_def)
  next
    assume i: "i = 1"
    have t1: "task_name (Suc 0) = ''task1''" using task_name_1 by simp
    from i show ?thesis
      unfolding ts by (simp add: scenario_model_def scenario_tasks_def scenario_out_def t1 wf_array_def)
  qed
qed

theorem predict_on_batch_columns_witness:
  "\<exists>p. predict_on_batch (fixed_engine scenario_out) scenario_model scenario_X = Inr p \<and>
       shape p = [4, 2] \<and> length (data p) = 8"
proof -
  have rm: "raw_model scenario_model = Some ()" by (simp add: scenario_model_def)
  have ep: "engine_predict (fixed_engine scenario_out) () [''input'' \<mapsto> scenario_X] = Inr scenario_out"
    by (simp add: fixed_engine_def)
  have sx: "shape scenario_X = 4 # [3]" by (simp add: scenario_X_def)
  have ts: "length (sorted_tasks (task_types scenario_model)) = 2"
    by (simp add: scenario_model_def scenario_sorted)
  from predict_on_batch_columns [OF rm ep sx scenario_outputs]
  show ?thesis unfolding ts by auto
qed

theorem predict_single_task_single_sample_counterexample:
  "np_shape0 single_X = Inr 1 \<and> length (sorted_tasks (task_types single_model)) = 1 \<and>
   predict_on_batch (fixed_engine single_out) single_model single_X = Inr \<lparr>shape = [], data = [1]\<rparr>"
  by (simp add: predict_on_batch_def get_data_dict_none fixed_engine_def single_model_def
      single_X_def single_out_def sorted_tasks_def enumerate_simps lookup_def lookup_map_def
      task_name_0 np_shape0_def np_zeros_def np_argmax1_def argmax_list_def np_squeeze_def
      set_col_def upt_rec)

text \<open>
  C10. For a batch of one sample, with engine outputs of the expected shapes, the final
  squeeze of \<^verbatim>\<open>predict_on_batch\<close> also removes the sample dimension: with more than one
  task the result has shape \<open>[t]\<close> and not \<open>[1, t]\<close>, and with one task it has the empty
  shape of a zero-dimensional array and not \<open>[1]\<close>.
\<close>

theorem predict_on_batch_single_sample:
  assumes "raw_model self = Some m"
    and "engine_predict eng m [''input'' \<mapsto> X] = Inr out"
    and "shape X = 1 # rest"
    and "\<And>i. i < length (sorted_tasks (task_types self)) \<Longrightarrow> \<exists>ty a.
      map_of (task_types self) (sorted_tasks (task_types self) ! i) = Some ty \<and>
      out (task_name i) = Some a \<and> wf_array a \<and>
      shape a = (if ty = ''classification'' then [1, 2] else [1, 1])"
  shows "\<exists>p. predict_on_batch eng self X = Inr p \<and>
      length (data p) = length (sorted_tasks (task_types self)) \<and>
      (1 < length (sorted_tasks (task_types self)) \<longrightarrow>
         shape p = [length (sorted_tasks (task_types self))]) \<and>
      (length (sorted_tasks (task_types self)) = 1 \<longrightarrow> shape p = [])"
proof -
  let ?t = "length (sorted_tasks (task_types self))"
  from predict_on_batch_explicit [OF assms] obtain p where
    run: "predict_on_batch eng self X = Inr p" and
    sp: "shape p = filter (\<lambda>d. d \<noteq> 1) [1, ?t]" and
    lp: "length (data p) = 1 * ?t"
    by blast
  have l: "length (data p) = ?t" using lp by simp
  have s1: "1 < ?t \<longrightarrow> shape p = [?t]" using sp by simp
  have s2: "?t = 1 \<longrightarrow> shape p = []" using sp by simp
  show ?thesis using run l s1 s2 by blast
qed

lemma single_outputs:
  assumes "i < length (sorted_tasks (task_types single_model))"
  shows "\<exists>ty a. map_of (task_types single_model) (sorted_tasks (task_types single_model) ! i) = Some ty \<and>
      single_out (task_name i) = Some a \<and> wf_array a \<and>
      shape a = (if ty = ''classification'' then [1, 2] else [1, 1])"
proof -
  have ts: "sorted_tasks (task_types single_model) = [''a'']"
    by (simp add: single_model_def sorted_tasks_def)
  from assms have "i = 0" unfolding ts by simp
  then show ?thesis
    unfolding ts by (simp add: single_model_def single_out_def task_name_0 wf_array_def)
qed

theorem predict_on_batch_single_sample_witness:
  "\<exists>p. predict_on_batch (fixed_engine single_out) single_model single_X = Inr p \<and>
       length (data p) = 1 \<and> shape p = []"
proof -
  have rm: "raw_model single_model = Some ()" by (simp add: single_model_def)
  have ep: "engine_predict (fixed_engine single_out) () [''input'' \<mapsto> single_X] = Inr single_out"
    by (simp add: fixed_engine_def)
  have sx: "shape single_X = 1 # [3]" by (simp add: single_X_def)
  have ts: "length (sorted_tasks (task_types single_model)) = 1"
    by (simp add: single_model_def sorted_tasks_def)
  from predict_on_batch_single_sample [OF rm ep sx single_outputs]
  show ?thesis unfolding ts by auto
qed



end
